theory Spec2Isabelle
  imports Main "HOL-Library.Multiset"
begin

section \<open>Vertex AI model enumerator: data model\<close>

text \<open>
  The embedding follows \<^verbatim>\<open>enumerate.py\<close>. The remote Model Garden service, the process
  environment and the completion times of the probe tasks are the inputs of the model;
  everything the script does to the outside (log lines on stderr, lines on stdout, calls
  to the service) is recorded in an explicit state that every function passes on.
\<close>

text \<open>
  A \<^verbatim>\<open>PublisherModel\<close> message. The script reads only \<^verbatim>\<open>model.name\<close>; the version
  field stands for the rest of the message, which is carried along untouched.
\<close>

record publisher_model =
  name :: string
  version_id :: string

text \<open>
  What a call to the service raises. All of these are subclasses of Python's
  \<^verbatim>\<open>Exception\<close> (the classes of \<^verbatim>\<open>google.api_core.exceptions\<close>, transport timeouts,
  decoding errors); each carries the text that \<^verbatim>\<open>str(e)\<close> renders.
\<close>

datatype exception =
    NotFound string
  | PermissionDenied string
  | InternalServerError string
  | DeadlineExceeded string
  | MalformedResponse string
  | OtherException string

fun str_exception :: "exception \<Rightarrow> string" where
  "str_exception (NotFound s) = s"
| "str_exception (PermissionDenied s) = s"
| "str_exception (InternalServerError s) = s"
| "str_exception (DeadlineExceeded s) = s"
| "str_exception (MalformedResponse s) = s"
| "str_exception (OtherException s) = s"

text \<open>\<^verbatim>\<open>sys.exit(code)\<close>: the process ends with this status.\<close>

datatype system_exit = SystemExit int

text \<open>
  The Model Garden service as the script sees it: both calls take the endpoint the
  client was built for, and either return (\<open>Inr\<close>) or raise (\<open>Inl\<close>).
\<close>

record service =
  list_publisher_models :: "string \<Rightarrow> string \<Rightarrow> exception + publisher_model list"
  get_publisher_model :: "string \<Rightarrow> string \<Rightarrow> exception + publisher_model"

text \<open>\<^verbatim>\<open>ModelGardenServiceClient(client_options={"api_endpoint": ...})\<close>.\<close>

record client =
  api_endpoint :: string

text \<open>
  The observable effects of a run: the log lines written to stderr (formatted
  \<^verbatim>\<open>LEVEL: message\<close>), the lines printed to stdout, and the calls made to the service
  with the endpoint they went to.
\<close>

record io =
  stderr :: "string list"
  stdout :: "string list"
  list_calls :: "(string \<times> string) list"
  get_calls :: "(string \<times> string) list"

definition io_empty :: io where
  "io_empty = \<lparr>stderr = [], stdout = [], list_calls = [], get_calls = []\<rparr>"

subsection \<open>Logging and formatting\<close>

definition logger_info :: "string \<Rightarrow> io \<Rightarrow> io" where
  "logger_info msg w = w\<lparr>stderr := stderr w @ [''INFO: '' @ msg]\<rparr>"

definition logger_warning :: "string \<Rightarrow> io \<Rightarrow> io" where
  "logger_warning msg w = w\<lparr>stderr := stderr w @ [''WARNING: '' @ msg]\<rparr>"

definition logger_error :: "string \<Rightarrow> io \<Rightarrow> io" where
  "logger_error msg w = w\<lparr>stderr := stderr w @ [''ERROR: '' @ msg]\<rparr>"

definition print :: "string \<Rightarrow> io \<Rightarrow> io" where
  "print line w = w\<lparr>stdout := stdout w @ [line]\<rparr>"

text \<open>Decimal rendering of a count, as an f-string does.\<close>

definition digit_char :: "nat \<Rightarrow> char" where
  "digit_char d = char_of (48 + d)"

fun str_nat :: "nat \<Rightarrow> string" where
  "str_nat n = (if n < 10 then [digit_char n] else str_nat (n div 10) @ [digit_char (n mod 10)])"

declare str_nat.simps [simp del]

text \<open>Python truthiness of an \<^verbatim>\<open>Optional[str]\<close>: \<^verbatim>\<open>None\<close> and \<^verbatim>\<open>""\<close> are false.\<close>

fun truthy :: "string option \<Rightarrow> bool" where
  "truthy None = False"
| "truthy (Some s) = (s \<noteq> [])"

text \<open>The value of an \<^verbatim>\<open>Optional[str]\<close> when it is truthy: what \<^verbatim>\<open>if x: return x\<close> returns.\<close>

definition if_truthy :: "string option \<Rightarrow> string option" where
  "if_truthy x = (if truthy x then x else None)"

section \<open>Configuration\<close>

text \<open>
  \<^verbatim>\<open>os.getenv\<close> on the process environment as \<^verbatim>\<open>main\<close> reads it, that is after
  \<^verbatim>\<open>load_dotenv()\<close> has run.
\<close>

definition os_getenv :: "(string \<rightharpoonup> string) \<Rightarrow> string \<Rightarrow> string option" where
  "os_getenv environ key = environ key"

definition get_project_id ::
  "(string \<rightharpoonup> string) \<Rightarrow> string option \<Rightarrow> io \<Rightarrow> (system_exit + string) \<times> io" where
  "get_project_id environ arg_project w =
     (case if_truthy arg_project of
        Some p \<Rightarrow> (Inr p, w)
      | None \<Rightarrow>
          (case if_truthy (os_getenv environ ''GOOGLE_CLOUD_PROJECT'') of
             Some env_project \<Rightarrow> (Inr env_project, w)
           | None \<Rightarrow>
               (Inl (SystemExit 1),
                logger_error ''Could not determine Project ID. Set GOOGLE_CLOUD_PROJECT env var or use --project.'' w)))"

section \<open>Availability probe\<close>

text \<open>
  \<^verbatim>\<open>check_model_availability\<close>: one call of \<^verbatim>\<open>get_publisher_model\<close> on the client's
  endpoint. The three branches are the \<^verbatim>\<open>try\<close> body and the two \<^verbatim>\<open>except\<close> clauses,
  in the source's order.
\<close>

definition check_model_availability :: "service \<Rightarrow> client \<Rightarrow> string \<Rightarrow> io \<Rightarrow> bool \<times> io" where
  "check_model_availability svc region_client model_name w =
     (let w' = w\<lparr>get_calls := get_calls w @ [(api_endpoint region_client, model_name)]\<rparr>
      in case get_publisher_model svc (api_endpoint region_client) model_name of
           Inr response \<Rightarrow> (True, w')
         | Inl (NotFound msg) \<Rightarrow> (False, w')
         | Inl other \<Rightarrow> (False, w'))"

section \<open>The thread pool, by completion order\<close>

text \<open>
  A future is the submission index of its task together with the value the task
  returned. \<^verbatim>\<open>future_to_model\<close> is the dictionary built by the comprehension, in
  insertion order: one entry per element of \<^verbatim>\<open>all_models\<close>, duplicates included, since
  every \<^verbatim>\<open>submit\<close> creates a fresh future. The service answers by endpoint and name, so
  the value of a task does not depend on when the pool runs it; the calls are recorded
  here in submission order. The interleaving of the tasks is modelled further below.
\<close>

type_synonym future = "nat \<times> bool"

fun executor_submit_all ::
  "service \<Rightarrow> client \<Rightarrow> publisher_model list \<Rightarrow> nat \<Rightarrow> io \<Rightarrow> (future \<times> publisher_model) list \<times> io" where
  "executor_submit_all svc region_client [] i w = ([], w)"
| "executor_submit_all svc region_client (model # rest) i w =
     (case check_model_availability svc region_client (name model) w of
        (r, w1) \<Rightarrow>
          (case executor_submit_all svc region_client rest (Suc i) w1 of
             (future_to_model, w2) \<Rightarrow> (((i, r), model) # future_to_model, w2)))"

text \<open>
  \<^verbatim>\<open>concurrent.futures.as_completed\<close> yields every future once, in the order the tasks
  finish. \<open>finish i\<close> is the time at which the task submitted as number \<open>i\<close> finishes; it
  is an input of the model, so every completion order is covered (futures with the same
  time are yielded in submission order). The loop looks the model of each yielded future
  up in the dictionary, so the entries are yielded here.
\<close>

definition as_completed ::
  "(nat \<Rightarrow> nat) \<Rightarrow> (future \<times> publisher_model) list \<Rightarrow> (future \<times> publisher_model) list" where
  "as_completed finish future_to_model = sort_key (\<lambda>entry. finish (fst (fst entry))) future_to_model"

text \<open>
  The body of the \<^verbatim>\<open>for future in as_completed(...)\<close> loop: one iteration, on the
  yielded future and its model, with the loop variables \<^verbatim>\<open>count\<close> and
  \<^verbatim>\<open>available_models\<close> passed along. The task never raises (every path of
  \<^verbatim>\<open>check_model_availability\<close> returns), so \<^verbatim>\<open>future.result()\<close> is the returned value.
\<close>

definition loop_body ::
  "nat \<Rightarrow> future \<Rightarrow> publisher_model \<Rightarrow> nat \<Rightarrow> publisher_model list \<Rightarrow> io
     \<Rightarrow> nat \<times> publisher_model list \<times> io" where
  "loop_body total_n future model counted available_models w =
     (let is_available = snd future;
          counted' = counted + 1;
          w' = (if counted' mod 20 = 0
                then logger_info (''Checked '' @ str_nat counted' @ ''/'' @ str_nat total_n @ '' models...'') w
                else w);
          available_models' = (if is_available then available_models @ [model] else available_models)
      in (counted', available_models', w'))"

text \<open>The loop over the futures in the order \<^verbatim>\<open>as_completed\<close> yields them.\<close>

fun collect ::
  "nat \<Rightarrow> (future \<times> publisher_model) list \<Rightarrow> nat \<Rightarrow> publisher_model list \<Rightarrow> io
     \<Rightarrow> nat \<times> publisher_model list \<times> io" where
  "collect total_n [] counted available_models w = (counted, available_models, w)"
| "collect total_n ((future, model) # rest) counted available_models w =
     (case loop_body total_n future model counted available_models w of
        (counted', available_models', w') \<Rightarrow> collect total_n rest counted' available_models' w')"

section \<open>Discovery and filtering\<close>

definition fetch_models ::
  "service \<Rightarrow> (nat \<Rightarrow> nat) \<Rightarrow> string \<Rightarrow> string \<Rightarrow> string \<Rightarrow> io
     \<Rightarrow> (system_exit + publisher_model list) \<times> io" where
  "fetch_models svc finish project_id region publisher w0 =
     (let discovery_endpoint = ''us-central1-aiplatform.googleapis.com'';
          w1 = logger_info (''Discovery: Fetching full catalog from '' @ discovery_endpoint @ ''...'') w0;
          discovery_client = \<lparr>api_endpoint = discovery_endpoint\<rparr>;
          parent = ''publishers/'' @ publisher;
          w2 = w1\<lparr>list_calls := list_calls w1 @ [(api_endpoint discovery_client, parent)]\<rparr>
      in case list_publisher_models svc (api_endpoint discovery_client) parent of
           Inl e \<Rightarrow>
             (Inl (SystemExit 1), logger_error (''Failed to discover models: '' @ str_exception e) w2)
         | Inr all_models \<Rightarrow>
             (let w3 = logger_info (''Discovery: Found '' @ str_nat (length all_models)
                                     @ '' models in Master Catalog.'') w2
              in if region = ''us-central1''
                 then (Inr all_models,
                       logger_info ''Region is us-central1; returning full discovery catalog.'' w3)
                 else
                   (let w4 = logger_info (''Filtering: Verifying availability in '' @ region @ '' for ''
                                           @ str_nat (length all_models) @ '' models...'') w3;
                        region_client = \<lparr>api_endpoint = region @ ''-aiplatform.googleapis.com''\<rparr>
                    in case executor_submit_all svc region_client all_models 0 w4 of
                         (future_to_model, w5) \<Rightarrow>
                           (case collect (length all_models) (as_completed finish future_to_model) 0 [] w5 of
                              (counted, available_models, w6) \<Rightarrow> (Inr available_models, w6)))))"

section \<open>Entry point\<close>

text \<open>The namespace \<^verbatim>\<open>parse_args\<close> returns; \<^verbatim>\<open>--publisher\<close> defaults to \<^verbatim>\<open>google\<close>.\<close>

record args =
  args_project :: "string option"
  args_region :: "string option"
  args_publisher :: string

text \<open>\<^verbatim>\<open>args.region or os.getenv("REGION") or "us-central1"\<close>.\<close>

definition resolve_region :: "(string \<rightharpoonup> string) \<Rightarrow> args \<Rightarrow> string" where
  "resolve_region environ a =
     (case if_truthy (args_region a) of
        Some r \<Rightarrow> r
      | None \<Rightarrow>
          (case if_truthy (os_getenv environ ''REGION'') of
             Some r \<Rightarrow> r
           | None \<Rightarrow> ''us-central1''))"

definition policy_line :: "publisher_model \<Rightarrow> string" where
  "policy_line model = ''- '' @ name model @ '':predict''"

definition main ::
  "service \<Rightarrow> (nat \<Rightarrow> nat) \<Rightarrow> (string \<rightharpoonup> string) \<Rightarrow> args \<Rightarrow> io \<Rightarrow> (system_exit + unit) \<times> io" where
  "main svc finish environ a w0 =
     (case get_project_id environ (args_project a) w0 of
        (Inl ex, w1) \<Rightarrow> (Inl ex, w1)
      | (Inr project_id, w1) \<Rightarrow>
          (let region = resolve_region environ a
           in case fetch_models svc finish project_id region (args_publisher a) w1 of
                (Inl ex, w2) \<Rightarrow> (Inl ex, w2)
              | (Inr models, w2) \<Rightarrow>
                  if models \<noteq> []
                  then
                    (let w3 = logger_info (''Successfully retrieved '' @ str_nat (length models)
                                            @ '' models available in '' @ region @ ''.'') w2;
                         w4 = print (''# Models available in '' @ region @ '' for publisher ''
                                      @ [CHR 0x27] @ args_publisher a @ [CHR 0x27]) w3
                     in (Inr (), foldl (\<lambda>w model. print (policy_line model) w) w4 models))
                  else
                    (Inr (), logger_warning (''No models found available in '' @ region @ ''.'') w2)))"

section \<open>The thread pool, step by step\<close>

text \<open>
  The \<^verbatim>\<open>with ThreadPoolExecutor(max_workers=50)\<close> block of \<^verbatim>\<open>fetch_models\<close> as an
  interleaving of the main thread and the worker threads. The scheduling itself is done
  by \<^verbatim>\<open>concurrent.futures\<close>; it is modelled by its documented behaviour: a submitted task
  is pending until a worker takes it, the pool has at most \<^verbatim>\<open>max_workers\<close> workers, each
  running one task at a time and taking queued tasks in submission order, and a task that
  has run is finished and holds the value its call returned.
\<close>

datatype task_state = Pending | Running | Finished bool

text \<open>
  The state of the block: one entry per submitted future, the futures
  \<^verbatim>\<open>as_completed\<close> has yielded so far, the loop variables \<^verbatim>\<open>count\<close> and
  \<^verbatim>\<open>available_models\<close>, whether \<^verbatim>\<open>fetch_models\<close> has returned, and the effects so far.
\<close>

record pool =
  pool_tasks :: "task_state list"
  pool_yielded :: "nat list"
  pool_counted :: nat
  pool_available :: "publisher_model list"
  pool_returned :: bool
  pool_io :: io

definition pool_init :: "io \<Rightarrow> pool" where
  "pool_init w = \<lparr>pool_tasks = [], pool_yielded = [], pool_counted = 0, pool_available = [],
                  pool_returned = False, pool_io = w\<rparr>"

text \<open>
  What can happen next. \<open>Submit\<close>: the comprehension submits the next model. \<open>Start\<close>:
  a worker takes the oldest pending task. \<open>Finish i\<close>: the call of
  \<^verbatim>\<open>check_model_availability\<close> of task \<open>i\<close> returns. \<open>Yield i\<close>: \<^verbatim>\<open>as_completed\<close> yields
  future \<open>i\<close> and the loop body runs on it. \<open>Return\<close>: the loop is over, the
  \<^verbatim>\<open>with\<close> block is left and \<^verbatim>\<open>fetch_models\<close> returns.
\<close>

datatype event = Submit | Start | Finish nat | Yield nat | Return

fun first_pending :: "task_state list \<Rightarrow> nat option" where
  "first_pending [] = None"
| "first_pending (t # ts) = (if t = Pending then Some 0 else map_option Suc (first_pending ts))"

definition running_count :: "task_state list \<Rightarrow> nat" where
  "running_count ts = length (filter (\<lambda>t. t = Running) ts)"

text \<open>
  One step; \<open>None\<close> when the event cannot happen in the state. \<^verbatim>\<open>as_completed\<close> is
  called once the dictionary is complete, yields only finished futures and each of them
  once, and is exhausted when all of them have been yielded; the loop then ends. Leaving
  the \<^verbatim>\<open>with\<close> block also waits for the workers; \<open>Return\<close> asks only for the loop to be
  over, which is shown below to leave no task unfinished.
\<close>

fun pool_step ::
  "nat \<Rightarrow> service \<Rightarrow> client \<Rightarrow> publisher_model list \<Rightarrow> event \<Rightarrow> pool \<Rightarrow> pool option" where
  "pool_step workers svc region_client all_models Submit s =
     (if \<not> pool_returned s \<and> length (pool_tasks s) < length all_models
      then Some (s\<lparr>pool_tasks := pool_tasks s @ [Pending]\<rparr>)
      else None)"
| "pool_step workers svc region_client all_models Start s =
     (case first_pending (pool_tasks s) of
        None \<Rightarrow> None
      | Some i \<Rightarrow>
          if running_count (pool_tasks s) < workers
          then Some (s\<lparr>pool_tasks := (pool_tasks s)[i := Running]\<rparr>)
          else None)"
| "pool_step workers svc region_client all_models (Finish i) s =
     (if i < length (pool_tasks s) \<and> i < length all_models \<and> pool_tasks s ! i = Running
      then (case check_model_availability svc region_client (name (all_models ! i)) (pool_io s) of
              (r, w') \<Rightarrow> Some (s\<lparr>pool_tasks := (pool_tasks s)[i := Finished r], pool_io := w'\<rparr>))
      else None)"
| "pool_step workers svc region_client all_models (Yield i) s =
     (if \<not> pool_returned s \<and> length (pool_tasks s) = length all_models
          \<and> i < length all_models \<and> i \<notin> set (pool_yielded s)
      then (case pool_tasks s ! i of
              Finished r \<Rightarrow>
                (case loop_body (length all_models) (i, r) (all_models ! i)
                        (pool_counted s) (pool_available s) (pool_io s) of
                   (counted', available_models', w') \<Rightarrow>
                     Some (s\<lparr>pool_yielded := pool_yielded s @ [i], pool_counted := counted',
                              pool_available := available_models', pool_io := w'\<rparr>))
            | Pending \<Rightarrow> None
            | Running \<Rightarrow> None)
      else None)"
| "pool_step workers svc region_client all_models Return s =
     (if \<not> pool_returned s \<and> length (pool_tasks s) = length all_models
          \<and> length (pool_yielded s) = length all_models
      then Some (s\<lparr>pool_returned := True\<rparr>)
      else None)"

text \<open>A run: the events of a schedule one after the other, from a given state.\<close>

fun pool_run ::
  "nat \<Rightarrow> service \<Rightarrow> client \<Rightarrow> publisher_model list \<Rightarrow> event list \<Rightarrow> pool \<Rightarrow> pool option" where
  "pool_run workers svc region_client all_models [] s = Some s"
| "pool_run workers svc region_client all_models (e # es) s =
     (case pool_step workers svc region_client all_models e s of
        None \<Rightarrow> None
      | Some s' \<Rightarrow> pool_run workers svc region_client all_models es s')"

text \<open>The pool size \<^verbatim>\<open>fetch_models\<close> asks for.\<close>

definition max_workers :: nat where
  "max_workers = 50"

text \<open>
  The filtering phase of \<^verbatim>\<open>fetch_models\<close> under a schedule: the pool of
  \<^verbatim>\<open>max_workers\<close> workers, the client of the target region, and the discovered list.
\<close>

definition filtering_run ::
  "service \<Rightarrow> string \<Rightarrow> publisher_model list \<Rightarrow> event list \<Rightarrow> io \<Rightarrow> pool option" where
  "filtering_run svc region all_models events w =
     pool_run max_workers svc \<lparr>api_endpoint = region @ ''-aiplatform.googleapis.com''\<rparr>
       all_models events (pool_init w)"

section \<open>Notions used by the statements\<close>

text \<open>A probe outcome is a confirmed successful fetch exactly when the call returned.\<close>

fun fetched :: "exception + publisher_model \<Rightarrow> bool" where
  "fetched (Inr response) = True"
| "fetched (Inl e) = False"

text \<open>
  The scenario of the specification: the master catalog lists the models \<^verbatim>\<open>a\<close>, \<^verbatim>\<open>b\<close> and
  \<^verbatim>\<open>c\<close> of publisher \<^verbatim>\<open>google\<close>; in the target region \<^verbatim>\<open>a\<close> is found, \<^verbatim>\<open>b\<close> is not
  found and the probe of \<^verbatim>\<open>c\<close> times out.
\<close>

definition scenario_model :: "string \<Rightarrow> publisher_model" where
  "scenario_model n = \<lparr>name = ''publishers/google/models/'' @ n, version_id = ''001''\<rparr>"

definition scenario_service :: service where
  "scenario_service =
     \<lparr>list_publisher_models = (\<lambda>endpoint parent.
          if endpoint = ''us-central1-aiplatform.googleapis.com'' \<and> parent = ''publishers/google''
          then Inr [scenario_model ''a'', scenario_model ''b'', scenario_model ''c'']
          else Inl (NotFound ''404 Publisher not found'')),
      get_publisher_model = (\<lambda>endpoint model_name.
          if model_name = ''publishers/google/models/a'' then Inr (scenario_model ''a'')
          else if model_name = ''publishers/google/models/b'' then Inl (NotFound ''404 Not found'')
          else Inl (DeadlineExceeded ''504 Deadline Exceeded''))\<rparr>"

text \<open>A service whose listing call is refused.\<close>

definition failing_service :: service where
  "failing_service =
     \<lparr>list_publisher_models = (\<lambda>endpoint parent. Inl (PermissionDenied ''403 Permission denied'')),
      get_publisher_model = (\<lambda>endpoint model_name. Inr (scenario_model ''a''))\<rparr>"

definition scenario_args :: args where
  "scenario_args = \<lparr>args_project = Some ''my-project'', args_region = None, args_publisher = ''google''\<rparr>"

text \<open>The outcome of the probe of the model submitted as number \<open>i\<close>.\<close>

definition probe_of :: "service \<Rightarrow> client \<Rightarrow> publisher_model list \<Rightarrow> nat \<Rightarrow> bool" where
  "probe_of svc region_client all_models i =
     fetched (get_publisher_model svc (api_endpoint region_client) (name (all_models ! i)))"

text \<open>What holds in every state of a run.\<close>

definition pool_inv :: "nat \<Rightarrow> service \<Rightarrow> client \<Rightarrow> publisher_model list \<Rightarrow> pool \<Rightarrow> bool" where
  "pool_inv workers svc region_client all_models s \<longleftrightarrow>
     length (pool_tasks s) \<le> length all_models
   \<and> running_count (pool_tasks s) \<le> workers
   \<and> distinct (pool_yielded s)
   \<and> (\<forall>i \<in> set (pool_yielded s). i < length (pool_tasks s))
   \<and> (\<forall>i < length (pool_tasks s).
         (i \<in> set (pool_yielded s) \<longrightarrow> (\<exists>r. pool_tasks s ! i = Finished r))
       \<and> (\<forall>r. pool_tasks s ! i = Finished r \<longrightarrow> r = probe_of svc region_client all_models i))
   \<and> pool_counted s = length (pool_yielded s)
   \<and> pool_available s =
       map (\<lambda>i. all_models ! i) (filter (probe_of svc region_client all_models) (pool_yielded s))
   \<and> (pool_returned s \<longrightarrow>
         length (pool_yielded s) = length all_models \<and> length (pool_tasks s) = length all_models)"

text \<open>
  The completion times of a run that has returned: the position at which each future
  was yielded.
\<close>

fun index_of :: "nat list \<Rightarrow> nat \<Rightarrow> nat" where
  "index_of [] i = 0"
| "index_of (y # ys) i = (if y = i then 0 else Suc (index_of ys i))"

text \<open>
  The schedule in which each model is submitted, started and finished in turn, and the
  futures are then yielded in submission order.
\<close>

definition sequential_schedule :: "nat \<Rightarrow> event list" where
  "sequential_schedule n =
     concat (map (\<lambda>i. [Submit, Start, Finish i]) [0..<n]) @ map Yield [0..<n] @ [Return]"

definition scenario_models :: "publisher_model list" where
  "scenario_models = [scenario_model ''a'', scenario_model ''b'', scenario_model ''c'']"

definition scenario_client :: client where
  "scenario_client = \<lparr>api_endpoint = ''europe-west4-aiplatform.googleapis.com''\<rparr>"

text \<open>
  A schedule with all three probes of the scenario in flight at once, finishing and
  being yielded out of submission order.
\<close>

definition scenario_events :: "event list" where
  "scenario_events =
     [Submit, Start, Submit, Submit, Start, Start, Finish 2, Finish 0, Finish 1,
      Yield 2, Yield 1, Yield 0, Return]"

section \<open>Properties of the building blocks\<close>

lemma io_simps:
  "stdout (logger_info msg w) = stdout w" "list_calls (logger_info msg w) = list_calls w"
  "get_calls (logger_info msg w) = get_calls w"
  "stdout (logger_warning msg w) = stdout w" "list_calls (logger_warning msg w) = list_calls w"
  "get_calls (logger_warning msg w) = get_calls w"
  "stdout (logger_error msg w) = stdout w" "list_calls (logger_error msg w) = list_calls w"
  "get_calls (logger_error msg w) = get_calls w"
  "stdout (print l w) = stdout w @ [l]" "list_calls (print l w) = list_calls w"
  "get_calls (print l w) = get_calls w" "stderr (print l w) = stderr w"
  by (simp_all add: logger_info_def logger_warning_def logger_error_def print_def)

lemma check_model_availability_eq:
  "check_model_availability svc c nm w =
     (fetched (get_publisher_model svc (api_endpoint c) nm),
      w\<lparr>get_calls := get_calls w @ [(api_endpoint c, nm)]\<rparr>)"
  by (simp add: check_model_availability_def Let_def split: sum.split exception.split)

lemma executor_submit_all_eq:
  "executor_submit_all svc c ms i w =
     (map (\<lambda>(j, m). ((j, fetched (get_publisher_model svc (api_endpoint c) (name m))), m))
          (zip [i..<i + length ms] ms),
      w\<lparr>get_calls := get_calls w @ map (\<lambda>m. (api_endpoint c, name m)) ms\<rparr>)"
proof (induction ms arbitrary: i w)
  case Nil
  show ?case by simp
next
  case (Cons m ms)
  have up: "[i..<i + length (m # ms)] = i # [Suc i..<Suc i + length ms]"
    by (simp add: upt_rec)
  show ?case
    unfolding up by (simp add: check_model_availability_eq Cons.IH)
qed

lemma collect_eq:
  "\<exists>w'. collect total_n xs counted available w =
          (counted + length xs, available @ map snd (filter (\<lambda>entry. snd (fst entry)) xs), w')
        \<and> stdout w' = stdout w \<and> list_calls w' = list_calls w \<and> get_calls w' = get_calls w"
proof (induction xs arbitrary: counted available w)
  case Nil
  show ?case by simp
next
  case (Cons x xs)
  obtain future model where x: "x = (future, model)" by (cases x)
  define w1 where "w1 = (if Suc counted mod 20 = 0
      then logger_info (''Checked '' @ str_nat (Suc counted) @ ''/'' @ str_nat total_n @ '' models...'') w
      else w)"
  define av1 where "av1 = (if snd future then available @ [model] else available)"
  have step: "collect total_n (x # xs) counted available w = collect total_n xs (Suc counted) av1 w1"
    by (simp add: x loop_body_def Let_def w1_def av1_def)
  have keep: "stdout w1 = stdout w \<and> list_calls w1 = list_calls w \<and> get_calls w1 = get_calls w"
    by (simp add: w1_def logger_info_def)
  from Cons.IH [of "Suc counted" av1 w1] obtain w' where
    rest: "collect total_n xs (Suc counted) av1 w1 =
             (Suc counted + length xs, av1 @ map snd (filter (\<lambda>entry. snd (fst entry)) xs), w')"
    and same: "stdout w' = stdout w1 \<and> list_calls w' = list_calls w1 \<and> get_calls w' = get_calls w1"
    by blast
  have "collect total_n (x # xs) counted available w =
          (counted + length (x # xs),
           available @ map snd (filter (\<lambda>entry. snd (fst entry)) (x # xs)), w')"
    unfolding step rest by (simp add: x av1_def)
  with same keep show ?case by simp
qed


lemma available_of_entries:
  "length js = length ms \<Longrightarrow>
   map snd (filter (\<lambda>entry. snd (fst entry)) (map (\<lambda>(j, m). ((j, p m), m)) (zip js ms))) = filter p ms"
proof (induction ms arbitrary: js)
  case Nil
  show ?case by simp
next
  case (Cons m ms)
  then obtain j js' where js: "js = j # js'" and len: "length js' = length ms"
    by (cases js) auto
  show ?case by (simp add: js Cons.IH [OF len])
qed

lemma mset_available_as_completed:
  "mset (map snd (filter (\<lambda>entry. snd (fst entry)) (as_completed finish entries))) =
   mset (map snd (filter (\<lambda>entry. snd (fst entry)) entries))"
  by (simp add: as_completed_def)

lemma fetch_models_probing_list:
  assumes disc: "list_publisher_models svc ''us-central1-aiplatform.googleapis.com''
                   (''publishers/'' @ publisher) = Inr all_models"
      and reg: "region \<noteq> ''us-central1''"
  shows "\<exists>w'.
           fetch_models svc finish project_id region publisher w =
             (Inr (map snd (filter (\<lambda>entry. snd (fst entry))
                (as_completed finish
                   (map (\<lambda>(j, m). ((j, fetched (get_publisher_model svc (region @ ''-aiplatform.googleapis.com'') (name m))), m))
                      (zip [0..<length all_models] all_models))))), w')
         \<and> stdout w' = stdout w
         \<and> list_calls w' = list_calls w @ [(''us-central1-aiplatform.googleapis.com'', ''publishers/'' @ publisher)]
         \<and> get_calls w' = get_calls w @ map (\<lambda>m. (region @ ''-aiplatform.googleapis.com'', name m)) all_models"
proof -
  define ep where "ep = region @ ''-aiplatform.googleapis.com''"
  define p where "p = (\<lambda>m::publisher_model. fetched (get_publisher_model svc ep (name m)))"
  define entries where
    "entries = map (\<lambda>(j, m). ((j, p m), m)) (zip [0..<0 + length all_models] all_models)"
  define w4 where "w4 =
    logger_info (''Filtering: Verifying availability in '' @ region @ '' for ''
                  @ str_nat (length all_models) @ '' models...'')
     (logger_info (''Discovery: Found '' @ str_nat (length all_models) @ '' models in Master Catalog.'')
       ((logger_info (''Discovery: Fetching full catalog from '' @ ''us-central1-aiplatform.googleapis.com'' @ ''...'') w)
          \<lparr>list_calls := list_calls w @ [(''us-central1-aiplatform.googleapis.com'', ''publishers/'' @ publisher)]\<rparr>))"
  define w5 where "w5 = w4\<lparr>get_calls := get_calls w4 @ map (\<lambda>m. (ep, name m)) all_models\<rparr>"
  have sub: "executor_submit_all svc \<lparr>api_endpoint = ep\<rparr> all_models 0 w4 = (entries, w5)"
    by (simp add: executor_submit_all_eq entries_def w5_def p_def)
  obtain w6 where col: "collect (length all_models) (as_completed finish entries) 0 [] w5 =
        (0 + length (as_completed finish entries),
         [] @ map snd (filter (\<lambda>entry. snd (fst entry)) (as_completed finish entries)), w6)"
    and same: "stdout w6 = stdout w5 \<and> list_calls w6 = list_calls w5 \<and> get_calls w6 = get_calls w5"
    using collect_eq [of "length all_models" "as_completed finish entries" 0 "[]" w5] by blast
  have run: "fetch_models svc finish project_id region publisher w =
               (Inr (map snd (filter (\<lambda>entry. snd (fst entry)) (as_completed finish entries))), w6)"
    using disc reg sub col
    by (simp add: fetch_models_def Let_def logger_info_def w4_def ep_def)
  have io: "stdout w6 = stdout w
          \<and> list_calls w6 = list_calls w @ [(''us-central1-aiplatform.googleapis.com'', ''publishers/'' @ publisher)]
          \<and> get_calls w6 = get_calls w @ map (\<lambda>m. (ep, name m)) all_models"
    using same by (simp add: w5_def w4_def logger_info_def)
  from run io show ?thesis
    unfolding entries_def p_def ep_def by auto
qed

lemma fetch_models_probing:
  assumes disc: "list_publisher_models svc ''us-central1-aiplatform.googleapis.com''
                   (''publishers/'' @ publisher) = Inr all_models"
      and reg: "region \<noteq> ''us-central1''"
  shows "\<exists>available w'.
           fetch_models svc finish project_id region publisher w = (Inr available, w')
         \<and> mset available =
             filter_mset (\<lambda>m. fetched (get_publisher_model svc (region @ ''-aiplatform.googleapis.com'') (name m)))
               (mset all_models)
         \<and> stdout w' = stdout w
         \<and> list_calls w' = list_calls w @ [(''us-central1-aiplatform.googleapis.com'', ''publishers/'' @ publisher)]
         \<and> get_calls w' = get_calls w @ map (\<lambda>m. (region @ ''-aiplatform.googleapis.com'', name m)) all_models"
proof -
  define p where "p = (\<lambda>m::publisher_model.
      fetched (get_publisher_model svc (region @ ''-aiplatform.googleapis.com'') (name m)))"
  define entries where
    "entries = map (\<lambda>(j, m). ((j, p m), m)) (zip [0..<length all_models] all_models)"
  define available where
    "available = map snd (filter (\<lambda>entry. snd (fst entry)) (as_completed finish entries))"
  from fetch_models_probing_list [OF disc reg, of finish project_id w]
  obtain w' where
    run: "fetch_models svc finish project_id region publisher w = (Inr available, w')"
    and io: "stdout w' = stdout w
         \<and> list_calls w' = list_calls w @ [(''us-central1-aiplatform.googleapis.com'', ''publishers/'' @ publisher)]
         \<and> get_calls w' = get_calls w @ map (\<lambda>m. (region @ ''-aiplatform.googleapis.com'', name m)) all_models"
    unfolding available_def entries_def p_def by blast
  have "mset available = mset (map snd (filter (\<lambda>entry. snd (fst entry)) entries))"
    by (simp only: available_def mset_available_as_completed)
  also have "\<dots> = mset (filter p all_models)"
    by (simp only: entries_def) (simp add: available_of_entries)
  finally have ms: "mset available = filter_mset p (mset all_models)"
    by simp
  from run ms io show ?thesis
    unfolding p_def by blast
qed


lemma fetch_models_fast_path:
  assumes disc: "list_publisher_models svc ''us-central1-aiplatform.googleapis.com''
                   (''publishers/'' @ publisher) = Inr all_models"
  shows "\<exists>w'. fetch_models svc finish project_id ''us-central1'' publisher w = (Inr all_models, w')
         \<and> stdout w' = stdout w
         \<and> list_calls w' = list_calls w @ [(''us-central1-aiplatform.googleapis.com'', ''publishers/'' @ publisher)]
         \<and> get_calls w' = get_calls w"
  using disc by (simp add: fetch_models_def Let_def logger_info_def)

lemma fetch_models_discovery_failed:
  assumes disc: "list_publisher_models svc ''us-central1-aiplatform.googleapis.com''
                   (''publishers/'' @ publisher) = Inl e"
  shows "\<exists>w'. fetch_models svc finish project_id region publisher w = (Inl (SystemExit 1), w')
         \<and> stdout w' = stdout w
         \<and> list_calls w' = list_calls w @ [(''us-central1-aiplatform.googleapis.com'', ''publishers/'' @ publisher)]
         \<and> get_calls w' = get_calls w
         \<and> last (stderr w') = ''ERROR: Failed to discover models: '' @ str_exception e"
  using disc by (simp add: fetch_models_def Let_def logger_info_def logger_error_def)

lemma print_lines_io:
  "stdout (foldl (\<lambda>w model. print (policy_line model) w) w ms) = stdout w @ map policy_line ms
   \<and> stderr (foldl (\<lambda>w model. print (policy_line model) w) w ms) = stderr w
   \<and> list_calls (foldl (\<lambda>w model. print (policy_line model) w) w ms) = list_calls w
   \<and> get_calls (foldl (\<lambda>w model. print (policy_line model) w) w ms) = get_calls w"
  by (induction ms arbitrary: w) (simp_all add: print_def)

lemma get_project_id_calls:
  "list_calls (snd (get_project_id environ arg_project w)) = list_calls w
   \<and> get_calls (snd (get_project_id environ arg_project w)) = get_calls w
   \<and> stdout (snd (get_project_id environ arg_project w)) = stdout w"
  by (simp add: get_project_id_def logger_error_def split: option.split)

lemma main_project_unresolved:
  "get_project_id environ (args_project a) w = (Inl ex, w1) \<Longrightarrow> main svc finish environ a w = (Inl ex, w1)"
  by (simp add: main_def)

lemma main_fetch_failed:
  "get_project_id environ (args_project a) w = (Inr project_id, w1)
   \<Longrightarrow> fetch_models svc finish project_id (resolve_region environ a) (args_publisher a) w1 = (Inl ex, w2)
   \<Longrightarrow> main svc finish environ a w = (Inl ex, w2)"
  by (simp add: main_def Let_def)

lemma main_fetch_ok:
  "get_project_id environ (args_project a) w = (Inr project_id, w1)
   \<Longrightarrow> fetch_models svc finish project_id (resolve_region environ a) (args_publisher a) w1 = (Inr models, w2)
   \<Longrightarrow> \<exists>w'. main svc finish environ a w = (Inr (), w')
         \<and> stdout w' = stdout w2 @
              (if models = [] then []
               else (''# Models available in '' @ resolve_region environ a @ '' for publisher ''
                       @ [CHR 0x27] @ args_publisher a @ [CHR 0x27]) # map policy_line models)
         \<and> list_calls w' = list_calls w2 \<and> get_calls w' = get_calls w2"
  by (simp add: main_def Let_def print_lines_io io_simps)


subsection \<open>Runs of the thread pool\<close>

lemma first_pending_Some:
  "first_pending ts = Some i \<Longrightarrow> i < length ts \<and> ts ! i = Pending"
proof (induction ts arbitrary: i)
  case Nil
  then show ?case by simp
next
  case (Cons t ts)
  show ?case
  proof (cases "t = Pending")
    case True
    with Cons.prems show ?thesis by simp
  next
    case False
    with Cons.prems obtain j where j: "first_pending ts = Some j" and i: "i = Suc j"
      by auto
    from Cons.IH [OF j] i show ?thesis by simp
  qed
qed

lemma running_count_append:
  "running_count (ts @ [Pending]) = running_count ts"
  by (simp add: running_count_def)

lemma running_count_start:
  "i < length ts \<Longrightarrow> ts ! i = Pending \<Longrightarrow> running_count (ts[i := Running]) = Suc (running_count ts)"
proof (induction ts arbitrary: i)
  case Nil
  then show ?case by simp
next
  case (Cons t ts)
  show ?case
  proof (cases i)
    case 0
    with Cons.prems show ?thesis by (simp add: running_count_def)
  next
    case (Suc j)
    with Cons.prems Cons.IH [of j] show ?thesis by (simp add: running_count_def)
  qed
qed

lemma running_count_finish:
  "i < length ts \<Longrightarrow> ts ! i = Running \<Longrightarrow> Suc (running_count (ts[i := Finished r])) = running_count ts"
proof (induction ts arbitrary: i)
  case Nil
  then show ?case by simp
next
  case (Cons t ts)
  show ?case
  proof (cases i)
    case 0
    with Cons.prems show ?thesis by (simp add: running_count_def)
  next
    case (Suc j)
    with Cons.prems Cons.IH [of j] show ?thesis by (simp add: running_count_def)
  qed
qed

lemma pool_inv_init: "pool_inv workers svc region_client all_models (pool_init w)"
  by (simp add: pool_inv_def pool_init_def running_count_def)

lemma loop_body_eq:
  "\<exists>w'. loop_body total_n future model counted available w =
           (Suc counted, (if snd future then available @ [model] else available), w')
        \<and> stdout w' = stdout w \<and> list_calls w' = list_calls w \<and> get_calls w' = get_calls w"
  by (simp add: loop_body_def Let_def io_simps)

lemma pool_inv_submit:
  assumes inv: "pool_inv workers svc c ms s"
      and step: "pool_step workers svc c ms Submit s = Some s'"
  shows "pool_inv workers svc c ms s'"
proof -
  from step have g: "\<not> pool_returned s" "length (pool_tasks s) < length ms"
    and s': "s' = s\<lparr>pool_tasks := pool_tasks s @ [Pending]\<rparr>"
    by (auto split: if_splits)
  from inv g show ?thesis
    unfolding pool_inv_def s'
    by (auto simp: running_count_append nth_append)
qed

lemma pool_inv_start:
  assumes inv: "pool_inv workers svc c ms s"
      and step: "pool_step workers svc c ms Start s = Some s'"
  shows "pool_inv workers svc c ms s'"
proof -
  from step obtain i where fp: "first_pending (pool_tasks s) = Some i"
    and cap: "running_count (pool_tasks s) < workers"
    and s': "s' = s\<lparr>pool_tasks := (pool_tasks s)[i := Running]\<rparr>"
    by (auto split: option.splits if_splits)
  from first_pending_Some [OF fp] have i: "i < length (pool_tasks s)" "pool_tasks s ! i = Pending"
    by simp_all
  have rc: "running_count ((pool_tasks s)[i := Running]) \<le> workers"
    using running_count_start [OF i] cap by simp
  have nth: "\<And>j r. j < length (pool_tasks s) \<Longrightarrow>
      ((pool_tasks s)[i := Running] ! j = Finished r) = (pool_tasks s ! j = Finished r)"
    using i by (auto simp: nth_list_update)
  from inv rc show ?thesis
    unfolding pool_inv_def s' by (simp add: nth)
qed

lemma pool_inv_finish:
  assumes inv: "pool_inv workers svc c ms s"
      and step: "pool_step workers svc c ms (Finish i) s = Some s'"
  shows "pool_inv workers svc c ms s'"
proof -
  from step have i: "i < length (pool_tasks s)" "i < length ms" "pool_tasks s ! i = Running"
    by (auto split: if_splits)
  define r where "r = probe_of svc c ms i"
  from step i have s': "s' = s\<lparr>pool_tasks := (pool_tasks s)[i := Finished r],
                                pool_io := (pool_io s)\<lparr>get_calls := get_calls (pool_io s) @ [(api_endpoint c, name (ms ! i))]\<rparr>\<rparr>"
    by (auto simp: check_model_availability_eq r_def probe_of_def)
  have rc: "running_count ((pool_tasks s)[i := Finished r]) \<le> workers"
    using running_count_finish [OF i(1) i(3), of r] inv by (simp add: pool_inv_def)
  have nth: "\<And>j q. j < length (pool_tasks s) \<Longrightarrow>
      ((pool_tasks s)[i := Finished r] ! j = Finished q) =
        (if j = i then q = r else pool_tasks s ! j = Finished q)"
    by (auto simp: nth_list_update)
  from inv have
        a1: "length (pool_tasks s) \<le> length ms"
    and a3: "distinct (pool_yielded s)"
    and a4: "\<forall>j \<in> set (pool_yielded s). j < length (pool_tasks s)"
    and a5: "\<forall>j < length (pool_tasks s).
         (j \<in> set (pool_yielded s) \<longrightarrow> (\<exists>q. pool_tasks s ! j = Finished q))
       \<and> (\<forall>q. pool_tasks s ! j = Finished q \<longrightarrow> q = probe_of svc c ms j)"
    and a6: "pool_counted s = length (pool_yielded s)"
    and a7: "pool_available s = map (\<lambda>i. ms ! i) (filter (probe_of svc c ms) (pool_yielded s))"
    and a8: "pool_returned s \<longrightarrow> length (pool_yielded s) = length ms \<and> length (pool_tasks s) = length ms"
    unfolding pool_inv_def by blast+
  have b5: "\<forall>j < length (pool_tasks s).
         (j \<in> set (pool_yielded s) \<longrightarrow> (\<exists>q. (pool_tasks s)[i := Finished r] ! j = Finished q))
       \<and> (\<forall>q. (pool_tasks s)[i := Finished r] ! j = Finished q \<longrightarrow> q = probe_of svc c ms j)"
  proof (intro allI impI)
    fix j assume j: "j < length (pool_tasks s)"
    show "(j \<in> set (pool_yielded s) \<longrightarrow> (\<exists>q. (pool_tasks s)[i := Finished r] ! j = Finished q))
       \<and> (\<forall>q. (pool_tasks s)[i := Finished r] ! j = Finished q \<longrightarrow> q = probe_of svc c ms j)"
    proof (cases "j = i")
      case True
      with j show ?thesis by (simp add: r_def)
    next
      case False
      with j a5 show ?thesis by simp
    qed
  qed
  from a1 rc a3 a4 b5 a6 a7 a8 show ?thesis
    unfolding pool_inv_def s' by simp
qed

lemma pool_inv_yield:
  assumes inv: "pool_inv workers svc c ms s"
      and step: "pool_step workers svc c ms (Yield i) s = Some s'"
  shows "pool_inv workers svc c ms s'"
proof -
  from step have g: "\<not> pool_returned s" "length (pool_tasks s) = length ms" "i < length ms"
      "i \<notin> set (pool_yielded s)"
    by (auto split: if_splits)
  from step g obtain r where fin: "pool_tasks s ! i = Finished r"
    by (auto split: task_state.splits)
  from inv g fin have r: "r = probe_of svc c ms i"
    unfolding pool_inv_def by auto
  obtain w' where lb: "loop_body (length ms) (i, r) (ms ! i) (pool_counted s) (pool_available s) (pool_io s) =
           (Suc (pool_counted s), (if snd (i, r) then pool_available s @ [ms ! i] else pool_available s), w')"
    using loop_body_eq [of "length ms" "(i, r)" "ms ! i" "pool_counted s" "pool_available s" "pool_io s"]
    by blast
  from step g fin lb have s': "s' = s\<lparr>pool_yielded := pool_yielded s @ [i], pool_counted := Suc (pool_counted s),
         pool_available := (if r then pool_available s @ [ms ! i] else pool_available s), pool_io := w'\<rparr>"
    by simp
  from inv have
        a1: "length (pool_tasks s) \<le> length ms"
    and a2: "running_count (pool_tasks s) \<le> workers"
    and a3: "distinct (pool_yielded s)"
    and a4: "\<forall>j \<in> set (pool_yielded s). j < length (pool_tasks s)"
    and a5: "\<forall>j < length (pool_tasks s).
         (j \<in> set (pool_yielded s) \<longrightarrow> (\<exists>q. pool_tasks s ! j = Finished q))
       \<and> (\<forall>q. pool_tasks s ! j = Finished q \<longrightarrow> q = probe_of svc c ms j)"
    and a6: "pool_counted s = length (pool_yielded s)"
    and a7: "pool_available s = map (\<lambda>i. ms ! i) (filter (probe_of svc c ms) (pool_yielded s))"
    unfolding pool_inv_def by blast+
  have b3: "distinct (pool_yielded s @ [i])"
    using a3 g(4) by simp
  have b4: "\<forall>j \<in> set (pool_yielded s @ [i]). j < length (pool_tasks s)"
    using a4 g(2) g(3) by simp
  have b5: "\<forall>j < length (pool_tasks s).
         (j \<in> set (pool_yielded s @ [i]) \<longrightarrow> (\<exists>q. pool_tasks s ! j = Finished q))
       \<and> (\<forall>q. pool_tasks s ! j = Finished q \<longrightarrow> q = probe_of svc c ms j)"
    using a5 fin by auto
  have b6: "Suc (pool_counted s) = length (pool_yielded s @ [i])"
    using a6 by simp
  have b7: "(if r then pool_available s @ [ms ! i] else pool_available s) =
            map (\<lambda>i. ms ! i) (filter (probe_of svc c ms) (pool_yielded s @ [i]))"
    using a7 r by simp
  from a1 a2 b3 b4 b5 b6 b7 g(1) show ?thesis
    unfolding pool_inv_def s' by simp
qed

lemma pool_inv_return:
  assumes inv: "pool_inv workers svc c ms s"
      and step: "pool_step workers svc c ms Return s = Some s'"
  shows "pool_inv workers svc c ms s'"
proof -
  from step have g: "length (pool_tasks s) = length ms" "length (pool_yielded s) = length ms"
    and s': "s' = s\<lparr>pool_returned := True\<rparr>"
    by (auto split: if_splits)
  from inv g show ?thesis
    unfolding pool_inv_def s' by simp
qed

lemma pool_inv_step:
  "pool_inv workers svc c ms s \<Longrightarrow> pool_step workers svc c ms e s = Some s' \<Longrightarrow> pool_inv workers svc c ms s'"
proof (cases e)
  case Submit
  then show "pool_inv workers svc c ms s \<Longrightarrow> pool_step workers svc c ms e s = Some s' \<Longrightarrow> ?thesis"
    using pool_inv_submit by blast
next
  case Start
  then show "pool_inv workers svc c ms s \<Longrightarrow> pool_step workers svc c ms e s = Some s' \<Longrightarrow> ?thesis"
    using pool_inv_start by blast
next
  case (Finish i)
  then show "pool_inv workers svc c ms s \<Longrightarrow> pool_step workers svc c ms e s = Some s' \<Longrightarrow> ?thesis"
    using pool_inv_finish by blast
next
  case (Yield i)
  then show "pool_inv workers svc c ms s \<Longrightarrow> pool_step workers svc c ms e s = Some s' \<Longrightarrow> ?thesis"
    using pool_inv_yield by blast
next
  case Return
  then show "pool_inv workers svc c ms s \<Longrightarrow> pool_step workers svc c ms e s = Some s' \<Longrightarrow> ?thesis"
    using pool_inv_return by blast
qed

lemma pool_inv_run:
  "pool_inv workers svc c ms s \<Longrightarrow> pool_run workers svc c ms es s = Some s' \<Longrightarrow> pool_inv workers svc c ms s'"
proof (induction es arbitrary: s)
  case Nil
  then show ?case by simp
next
  case (Cons e es)
  from Cons.prems(2) obtain s1 where st: "pool_step workers svc c ms e s = Some s1"
    and rest: "pool_run workers svc c ms es s1 = Some s'"
    by (auto split: option.splits)
  from Cons.IH [OF pool_inv_step [OF Cons.prems(1) st] rest] show ?case .
qed

lemma pool_run_append:
  "pool_run workers svc c ms (es1 @ es2) s =
     (case pool_run workers svc c ms es1 s of
        None \<Rightarrow> None
      | Some s1 \<Rightarrow> pool_run workers svc c ms es2 s1)"
  by (induction es1 arbitrary: s) (simp_all split: option.split)

lemma yielded_all:
  assumes d: "distinct ys" and b: "\<forall>i \<in> set ys. i < n" and l: "length ys = n"
  shows "mset ys = mset [0..<n]"
proof -
  have sub: "set ys \<subseteq> {0..<n}" using b by auto
  have "card (set ys) = n" using d l by (simp add: distinct_card)
  then have "set ys = {0..<n}"
    using sub by (simp add: card_subset_eq)
  then have "set ys = set [0..<n]" by simp
  moreover have "distinct [0..<n]" by simp
  ultimately show ?thesis
    using d set_eq_iff_mset_eq_distinct [of ys "[0..<n]"] by blast
qed

lemma filter_by_index:
  "map (\<lambda>i. ms ! i) (filter (\<lambda>i. P (ms ! i)) [0..<length ms]) = filter P ms"
proof -
  have "map (\<lambda>i. ms ! i) (filter (\<lambda>i. P (ms ! i)) [0..<length ms]) =
        filter P (map (\<lambda>i. ms ! i) [0..<length ms])"
    by (simp add: filter_map comp_def)
  then show ?thesis by (simp add: map_nth)
qed

lemma pool_inv_returned:
  assumes inv: "pool_inv workers svc c ms s" and ret: "pool_returned s"
  shows "length (pool_tasks s) = length ms
       \<and> (\<forall>i < length ms. pool_tasks s ! i = Finished (probe_of svc c ms i))
       \<and> pool_counted s = length ms
       \<and> mset (pool_yielded s) = mset [0..<length ms]
       \<and> mset (pool_available s) =
           filter_mset (\<lambda>m. fetched (get_publisher_model svc (api_endpoint c) (name m))) (mset ms)"
proof -
  from inv have
        a3: "distinct (pool_yielded s)"
    and a4: "\<forall>j \<in> set (pool_yielded s). j < length (pool_tasks s)"
    and a5: "\<forall>j < length (pool_tasks s).
         (j \<in> set (pool_yielded s) \<longrightarrow> (\<exists>q. pool_tasks s ! j = Finished q))
       \<and> (\<forall>q. pool_tasks s ! j = Finished q \<longrightarrow> q = probe_of svc c ms j)"
    and a6: "pool_counted s = length (pool_yielded s)"
    and a7: "pool_available s = map (\<lambda>i. ms ! i) (filter (probe_of svc c ms) (pool_yielded s))"
    and a8: "pool_returned s \<longrightarrow> length (pool_yielded s) = length ms \<and> length (pool_tasks s) = length ms"
    unfolding pool_inv_def by blast+
  from a8 ret have ly: "length (pool_yielded s) = length ms" and lt: "length (pool_tasks s) = length ms"
    by simp_all
  have ys: "mset (pool_yielded s) = mset [0..<length ms]"
    using yielded_all [OF a3 _ ly] a4 lt by simp
  then have sety: "set (pool_yielded s) = {0..<length ms}"
    by (metis mset_eq_setD set_upt)
  have fin: "\<forall>i < length ms. pool_tasks s ! i = Finished (probe_of svc c ms i)"
  proof (intro allI impI)
    fix i assume i: "i < length ms"
    with sety have "i \<in> set (pool_yielded s)" by simp
    with a5 i lt obtain q where q: "pool_tasks s ! i = Finished q" by auto
    with a5 i lt have "q = probe_of svc c ms i" by auto
    with q show "pool_tasks s ! i = Finished (probe_of svc c ms i)" by simp
  qed
  have "mset (pool_available s) =
        image_mset (\<lambda>i. ms ! i) (filter_mset (probe_of svc c ms) (mset (pool_yielded s)))"
    by (simp add: a7)
  also have "\<dots> = mset (map (\<lambda>i. ms ! i) (filter (probe_of svc c ms) [0..<length ms]))"
    by (simp add: ys)
  also have "\<dots> = mset (filter (\<lambda>m. fetched (get_publisher_model svc (api_endpoint c) (name m))) ms)"
    using filter_by_index [of ms "\<lambda>m. fetched (get_publisher_model svc (api_endpoint c) (name m))"]
    by (simp add: probe_of_def [abs_def])
  finally have av: "mset (pool_available s) =
           filter_mset (\<lambda>m. fetched (get_publisher_model svc (api_endpoint c) (name m))) (mset ms)"
    by simp
  from lt fin a6 ly ys av show ?thesis by simp
qed

lemma running_count_all_finished:
  "\<forall>i < length ts. \<exists>r. ts ! i = Finished r \<Longrightarrow> running_count ts = 0"
proof -
  assume a: "\<forall>i < length ts. \<exists>r. ts ! i = Finished r"
  have "\<forall>t \<in> set ts. t \<noteq> Running"
  proof
    fix t assume "t \<in> set ts"
    then obtain i where "i < length ts" "ts ! i = t" by (auto simp: in_set_conv_nth)
    with a show "t \<noteq> Running" by auto
  qed
  then show ?thesis by (simp add: running_count_def filter_empty_conv)
qed

lemma first_pending_after_finished:
  "first_pending (map Finished bs @ [Pending]) = Some (length bs)"
  by (induction bs) simp_all

lemma running_count_finished:
  "running_count (map Finished bs @ ts) = running_count ts"
  by (induction bs) (simp_all add: running_count_def)

lemma pool_round:
  assumes ts: "pool_tasks s = map Finished bs"
      and len: "length bs < length ms"
      and nr: "\<not> pool_returned s"
      and w1: "1 \<le> workers"
  shows "\<exists>s' r. pool_run workers svc c ms [Submit, Start, Finish (length bs)] s = Some s'
           \<and> pool_tasks s' = map Finished (bs @ [r])
           \<and> pool_yielded s' = pool_yielded s
           \<and> pool_returned s' = pool_returned s"
proof -
  define s1 where "s1 = s\<lparr>pool_tasks := pool_tasks s @ [Pending]\<rparr>"
  have st1: "pool_step workers svc c ms Submit s = Some s1"
    using ts len nr by (simp add: s1_def)
  have t1: "pool_tasks s1 = map Finished bs @ [Pending]"
    by (simp add: s1_def ts)
  define s2 where "s2 = s1\<lparr>pool_tasks := (pool_tasks s1)[length bs := Running]\<rparr>"
  have rc: "running_count (pool_tasks s1) < workers"
    using w1 by (simp add: t1 running_count_finished) (simp add: running_count_def)
  have st2: "pool_step workers svc c ms Start s1 = Some s2"
    using rc by (simp add: t1 first_pending_after_finished s2_def)
  have t2: "pool_tasks s2 = map Finished bs @ [Running]"
    by (simp add: s2_def t1 list_update_append)
  define r where "r = fst (check_model_availability svc c (name (ms ! length bs)) (pool_io s2))"
  define w' where "w' = snd (check_model_availability svc c (name (ms ! length bs)) (pool_io s2))"
  define s3 where "s3 = s2\<lparr>pool_tasks := (pool_tasks s2)[length bs := Finished r], pool_io := w'\<rparr>"
  have st3: "pool_step workers svc c ms (Finish (length bs)) s2 = Some s3"
    using len by (simp add: t2 nth_append s3_def r_def w'_def split: prod.split)
  have t3: "pool_tasks s3 = map Finished (bs @ [r])"
    by (simp add: s3_def t2 list_update_append)
  have run: "pool_run workers svc c ms [Submit, Start, Finish (length bs)] s = Some s3"
    by (simp only: pool_run.simps st1 st2 st3 option.case)
  have keep: "pool_yielded s3 = pool_yielded s \<and> pool_returned s3 = pool_returned s"
    by (simp add: s3_def s2_def s1_def)
  from run t3 keep show ?thesis by blast
qed

lemma pool_rounds:
  assumes w1: "1 \<le> workers"
  shows "pool_tasks s = map Finished bs \<Longrightarrow> length bs + k \<le> length ms \<Longrightarrow> \<not> pool_returned s \<Longrightarrow>
         \<exists>s' bs'. pool_run workers svc c ms
                     (concat (map (\<lambda>i. [Submit, Start, Finish i]) [length bs..<length bs + k])) s = Some s'
           \<and> pool_tasks s' = map Finished bs' \<and> length bs' = length bs + k
           \<and> pool_yielded s' = pool_yielded s
           \<and> \<not> pool_returned s'"
proof (induction k arbitrary: s bs)
  case 0
  then show ?case by (intro exI [of _ s] exI [of _ bs]) simp
next
  case (Suc k)
  from Suc.prems have len: "length bs < length ms" by simp
  from pool_round [OF Suc.prems(1) len Suc.prems(3) w1, of svc c]
  obtain s1 r where r1: "pool_run workers svc c ms [Submit, Start, Finish (length bs)] s = Some s1"
    and t1: "pool_tasks s1 = map Finished (bs @ [r])"
    and y1: "pool_yielded s1 = pool_yielded s"
    and n1: "pool_returned s1 = pool_returned s"
    by blast
  have l1: "length (bs @ [r]) + k \<le> length ms" using Suc.prems(2) by simp
  have nr1: "\<not> pool_returned s1" using n1 Suc.prems(3) by simp
  from Suc.IH [OF t1 l1 nr1]
  obtain s' bs' where
    r2: "pool_run workers svc c ms
           (concat (map (\<lambda>i. [Submit, Start, Finish i]) [length (bs @ [r])..<length (bs @ [r]) + k])) s1 = Some s'"
    and t2: "pool_tasks s' = map Finished bs'" and l2: "length bs' = length (bs @ [r]) + k"
    and y2: "pool_yielded s' = pool_yielded s1" and n2: "\<not> pool_returned s'"
    by blast
  have split: "[length bs..<length bs + Suc k] = length bs # [length (bs @ [r])..<length (bs @ [r]) + k]"
    by (simp add: upt_rec)
  have "concat (map (\<lambda>i. [Submit, Start, Finish i]) [length bs..<length bs + Suc k]) =
        [Submit, Start, Finish (length bs)] @
        concat (map (\<lambda>i. [Submit, Start, Finish i]) [length (bs @ [r])..<length (bs @ [r]) + k])"
    unfolding split by simp
  then have "pool_run workers svc c ms
               (concat (map (\<lambda>i. [Submit, Start, Finish i]) [length bs..<length bs + Suc k])) s = Some s'"
    using r1 r2 by (simp only: pool_run_append option.case)
  with t2 l2 y2 y1 n2 show ?case by auto
qed

lemma pool_yields:
  "pool_tasks s = map Finished bs \<Longrightarrow> length bs = length ms \<Longrightarrow> \<not> pool_returned s \<Longrightarrow>
   pool_yielded s = [0..<j] \<Longrightarrow> j + k \<le> length ms \<Longrightarrow>
   \<exists>s'. pool_run workers svc c ms (map Yield [j..<j + k]) s = Some s'
       \<and> pool_tasks s' = pool_tasks s \<and> pool_yielded s' = [0..<j + k] \<and> \<not> pool_returned s'"
proof (induction k arbitrary: s j)
  case 0
  then show ?case by simp
next
  case (Suc k)
  from Suc.prems have j: "j < length ms" by simp
  obtain w' where lb: "loop_body (length ms) (j, bs ! j) (ms ! j) (pool_counted s) (pool_available s) (pool_io s) =
           (Suc (pool_counted s), (if snd (j, bs ! j) then pool_available s @ [ms ! j] else pool_available s), w')"
    using loop_body_eq [of "length ms" "(j, bs ! j)" "ms ! j" "pool_counted s" "pool_available s" "pool_io s"]
    by blast
  define s1 where "s1 = s\<lparr>pool_yielded := pool_yielded s @ [j], pool_counted := Suc (pool_counted s),
         pool_available := (if bs ! j then pool_available s @ [ms ! j] else pool_available s), pool_io := w'\<rparr>"
  have st: "pool_step workers svc c ms (Yield j) s = Some s1"
    using Suc.prems j lb by (simp add: s1_def)
  have t1: "pool_tasks s1 = map Finished bs" using Suc.prems(1) by (simp add: s1_def)
  have n1: "\<not> pool_returned s1" using Suc.prems(3) by (simp add: s1_def)
  have y1: "pool_yielded s1 = [0..<Suc j]" using Suc.prems(4) by (simp add: s1_def)
  have l1: "Suc j + k \<le> length ms" using Suc.prems(5) by simp
  from Suc.IH [OF t1 Suc.prems(2) n1 y1 l1]
  obtain s' where r2: "pool_run workers svc c ms (map Yield [Suc j..<Suc j + k]) s1 = Some s'"
    and t2: "pool_tasks s' = pool_tasks s1" and y2: "pool_yielded s' = [0..<Suc j + k]"
    and n2: "\<not> pool_returned s'"
    by blast
  have split: "[j..<j + Suc k] = j # [Suc j..<Suc j + k]"
    by (simp add: upt_rec)
  have "pool_run workers svc c ms (map Yield [j..<j + Suc k]) s = Some s'"
    unfolding split using st r2 by (simp only: list.map pool_run.simps option.case)
  with t2 t1 Suc.prems(1) y2 n2 show ?case by simp
qed



lemma pool_can_return:
  assumes w1: "1 \<le> workers"
  shows "\<exists>s. pool_run workers svc c ms (sequential_schedule (length ms)) (pool_init w) = Some s
            \<and> pool_returned s"
proof -
  have t0: "pool_tasks (pool_init w) = map Finished []" by (simp add: pool_init_def)
  have n0: "\<not> pool_returned (pool_init w)" by (simp add: pool_init_def)
  from pool_rounds [OF w1 t0 _ n0, of "length ms" ms svc c]
  obtain s1 bs where
    r1: "pool_run workers svc c ms (concat (map (\<lambda>i. [Submit, Start, Finish i]) [0..<length ms])) (pool_init w) = Some s1"
    and t1: "pool_tasks s1 = map Finished bs" and l1: "length bs = length ms"
    and y1: "pool_yielded s1 = pool_yielded (pool_init w)" and n1: "\<not> pool_returned s1"
    by auto
  have y1': "pool_yielded s1 = [0..<0]" using y1 by (simp add: pool_init_def)
  from pool_yields [OF t1 l1 n1 y1', of "length ms" workers svc c]
  obtain s2 where
    r2: "pool_run workers svc c ms (map Yield [0..<length ms]) s1 = Some s2"
    and t2: "pool_tasks s2 = pool_tasks s1" and y2: "pool_yielded s2 = [0..<length ms]"
    and n2: "\<not> pool_returned s2"
    by auto
  have r3: "pool_run workers svc c ms [Return] s2 = Some (s2\<lparr>pool_returned := True\<rparr>)"
    using t2 t1 l1 y2 n2 by simp
  have "pool_run workers svc c ms (sequential_schedule (length ms)) (pool_init w)
          = Some (s2\<lparr>pool_returned := True\<rparr>)"
    unfolding sequential_schedule_def using r1 r2 r3
    by (simp only: pool_run_append option.case)
  then show ?thesis by simp
qed

lemma map_index_of:
  "distinct ys \<Longrightarrow> map (index_of ys) ys = [0..<length ys]"
proof (induction ys)
  case Nil
  show ?case by simp
next
  case (Cons y ys)
  then have d: "distinct ys" and ny: "y \<notin> set ys" by simp_all
  have "map (index_of (y # ys)) ys = map (\<lambda>i. Suc (index_of ys i)) ys"
    using ny by (intro map_cong) auto
  also have "\<dots> = map Suc (map (index_of ys) ys)" by simp
  also have "\<dots> = [Suc 0..<Suc (length ys)]"
    by (simp only: Cons.IH [OF d] map_Suc_upt)
  finally have h: "map (index_of (y # ys)) (y # ys) = 0 # [Suc 0..<Suc (length ys)]"
    by simp
  have e: "[0..<length (y # ys)] = 0 # [Suc 0..<Suc (length ys)]"
    unfolding length_Cons by (rule upt_conv_Cons) simp
  show ?case by (simp only: h e)
qed

lemma as_completed_in_yield_order:
  fixes entries :: "(future \<times> publisher_model) list"
  assumes perm: "mset ys = mset [0..<length entries]"
      and idx: "\<forall>i < length entries. fst (fst (entries ! i)) = i"
  shows "as_completed (index_of ys) entries = map (\<lambda>i. entries ! i) ys"
proof -
  define g where "g = (\<lambda>entry :: future \<times> publisher_model. index_of ys (fst (fst entry)))"
  define zs where "zs = map (\<lambda>i. entries ! i) ys"
  have d: "distinct ys"
    using perm mset_eq_imp_distinct_iff [of ys "[0..<length entries]"] by simp
  have sety: "set ys = {0..<length entries}"
    using perm mset_eq_setD [of ys "[0..<length entries]"] by simp
  have ly: "length ys = length entries"
    using perm mset_eq_length [of ys "[0..<length entries]"] by simp
  have mz: "mset zs = mset entries"
  proof -
    have "mset zs = image_mset (\<lambda>i. entries ! i) (mset ys)" by (simp add: zs_def)
    also have "\<dots> = mset (map (\<lambda>i. entries ! i) [0..<length entries])" by (simp add: perm)
    also have "\<dots> = mset entries" by (simp add: map_nth)
    finally show ?thesis .
  qed
  have gz: "map g zs = [0..<length ys]"
  proof -
    have "map g zs = map (\<lambda>i. g (entries ! i)) ys" by (simp add: zs_def comp_def)
    also have "\<dots> = map (index_of ys) ys"
      using idx sety by (intro map_cong) (auto simp: g_def)
    finally show ?thesis by (simp add: map_index_of [OF d])
  qed
  have sz: "sorted (map g zs)" and dz: "distinct (map g zs)"
    by (simp_all add: gz)
  have mx: "mset (sort_key g entries) = mset zs"
    by (simp add: mz)
  have sx: "sorted (map g (sort_key g entries))"
    by (rule sorted_sort_key)
  have "mset (map g (sort_key g entries)) = mset (map g zs)"
    by (simp only: mset_map mx)
  from mset_eq_imp_distinct_iff [OF this] dz
  have dx: "distinct (map g (sort_key g entries))"
    by simp
  have sets: "set (sort_key g entries) = set zs"
    using mx by (rule mset_eq_setD)
  have inj: "inj_on g (set (sort_key g entries) \<union> set zs)"
    using dz sets by (simp add: distinct_map)
  have "sort_key g entries = zs"
    by (rule map_sorted_distinct_set_unique [OF inj sx dx sz dz sets])
  then show ?thesis
    by (simp add: as_completed_def g_def zs_def)
qed

lemma entries_nth:
  fixes ms :: "publisher_model list"
  shows "i < length ms \<Longrightarrow>
         map (\<lambda>(j, m). ((j, p m), m)) (zip [0..<length ms] ms) ! i = ((i, p (ms ! i)), ms ! i)"
  by simp

lemma pool_run_refines_fetch_models:
  assumes disc: "list_publisher_models svc ''us-central1-aiplatform.googleapis.com''
                   (''publishers/'' @ publisher) = Inr all_models"
      and reg: "region \<noteq> ''us-central1''"
      and run: "pool_run workers svc \<lparr>api_endpoint = region @ ''-aiplatform.googleapis.com''\<rparr>
                  all_models events (pool_init w4) = Some s"
      and ret: "pool_returned s"
  shows "\<exists>w'. fetch_models svc (index_of (pool_yielded s)) project_id region publisher w
               = (Inr (pool_available s), w')"
proof -
  define c where "c = \<lparr>api_endpoint = region @ ''-aiplatform.googleapis.com''\<rparr>"
  define p where "p = (\<lambda>m::publisher_model.
      fetched (get_publisher_model svc (region @ ''-aiplatform.googleapis.com'') (name m)))"
  define entries where
    "entries = map (\<lambda>(j, m). ((j, p m), m)) (zip [0..<length all_models] all_models)"
  define ys where "ys = pool_yielded s"
  have inv: "pool_inv workers svc c all_models s"
    using pool_inv_run [OF pool_inv_init run [folded c_def]] .
  from pool_inv_returned [OF inv ret]
  have perm: "mset ys = mset [0..<length all_models]"
    by (simp add: ys_def)
  from inv have av: "pool_available s = map (\<lambda>i. all_models ! i) (filter (probe_of svc c all_models) ys)"
    unfolding pool_inv_def ys_def by blast
  have le: "length entries = length all_models" by (simp add: entries_def)
  have nth: "\<forall>i < length all_models. entries ! i = ((i, p (all_models ! i)), all_models ! i)"
    unfolding entries_def using entries_nth [of _ all_models p] by blast
  have sety: "set ys = {0..<length all_models}"
    using perm mset_eq_setD [of ys "[0..<length all_models]"] by simp
  have order: "as_completed (index_of ys) entries = map (\<lambda>i. entries ! i) ys"
    using as_completed_in_yield_order [of ys entries] perm nth le by simp
  have "map snd (filter (\<lambda>entry. snd (fst entry)) (map (\<lambda>i. entries ! i) ys)) =
        map (\<lambda>i. snd (entries ! i)) (filter (\<lambda>i. snd (fst (entries ! i))) ys)"
    by (simp add: filter_map comp_def)
  also have "\<dots> = map (\<lambda>i. all_models ! i) (filter (\<lambda>i. snd (fst (entries ! i))) ys)"
    using nth sety by (intro map_cong) auto
  also have "filter (\<lambda>i. snd (fst (entries ! i))) ys = filter (probe_of svc c all_models) ys"
    using nth sety by (intro filter_cong) (auto simp: probe_of_def c_def p_def)
  finally have res: "map snd (filter (\<lambda>entry. snd (fst entry)) (as_completed (index_of ys) entries)) =
                     pool_available s"
    by (simp add: order av)
  from fetch_models_probing_list [OF disc reg, of "index_of ys" project_id w]
  have "\<exists>w'. fetch_models svc (index_of ys) project_id region publisher w =
          (Inr (map snd (filter (\<lambda>entry. snd (fst entry)) (as_completed (index_of ys) entries))), w')"
    unfolding entries_def p_def by blast
  then have "\<exists>w'. fetch_models svc (index_of ys) project_id region publisher w =
          (Inr (pool_available s), w')"
    by (simp only: res)
  then show ?thesis
    by (simp only: ys_def)
qed

section \<open>Claims\<close>

text \<open>
  C1 (fail-closed filtering). For a target region other than the master region:
  \<^verbatim>\<open>check_model_availability\<close> returns false whenever the fetch raises, whatever the
  exception (not found, permission denied, server error, timeout, malformed response),
  and true exactly on a confirmed successful fetch; and \<^verbatim>\<open>fetch_models\<close> returns, as a
  multiset, exactly the discovered items whose probe is a confirmed successful fetch, so
  an item is included if and only if its probe outcome is true.
\<close>

theorem fail_closed_filtering:
  "list_publisher_models svc ''us-central1-aiplatform.googleapis.com'' (''publishers/'' @ publisher) = Inr all_models
   \<Longrightarrow> region \<noteq> ''us-central1''
   \<Longrightarrow> (\<forall>e. get_publisher_model svc (api_endpoint c) model_name = Inl e
             \<longrightarrow> fst (check_model_availability svc c model_name w0) = False)
     \<and> fst (check_model_availability svc c model_name w0) = fetched (get_publisher_model svc (api_endpoint c) model_name)
     \<and> (\<exists>available w'.
           fetch_models svc finish project_id region publisher w = (Inr available, w')
         \<and> mset available =
             filter_mset (\<lambda>m. fetched (get_publisher_model svc (region @ ''-aiplatform.googleapis.com'') (name m)))
               (mset all_models))"
proof -
  assume disc: "list_publisher_models svc ''us-central1-aiplatform.googleapis.com'' (''publishers/'' @ publisher) = Inr all_models"
    and reg: "region \<noteq> ''us-central1''"
  have probe: "fst (check_model_availability svc c model_name w0) = fetched (get_publisher_model svc (api_endpoint c) model_name)"
    by (simp add: check_model_availability_eq)
  have closed: "\<forall>e. get_publisher_model svc (api_endpoint c) model_name = Inl e
             \<longrightarrow> fst (check_model_availability svc c model_name w0) = False"
    by (simp add: probe)
  from fetch_models_probing [OF disc reg, of finish project_id w] probe closed
  show ?thesis by blast
qed

text \<open>
  The scenario: discovery returns \<open>[a, b, c]\<close>, the probes report found, not found and
  timeout; whatever the completion order, the result set is exactly \<open>{a}\<close>.
\<close>

theorem fail_closed_filtering_scenario:
  "\<forall>finish. \<exists>available w'.
      fetch_models scenario_service finish ''my-project'' ''europe-west4'' ''google'' io_empty = (Inr available, w')
    \<and> set available = {scenario_model ''a''}"
proof
  fix finish
  have disc: "list_publisher_models scenario_service ''us-central1-aiplatform.googleapis.com'' (''publishers/'' @ ''google'')
              = Inr [scenario_model ''a'', scenario_model ''b'', scenario_model ''c'']"
    by (simp add: scenario_service_def)
  have reg: "''europe-west4'' \<noteq> ''us-central1''" by simp
  from fail_closed_filtering [OF disc reg, of "\<lparr>api_endpoint = ''europe-west4-aiplatform.googleapis.com''\<rparr>"
         "''publishers/google/models/c''" io_empty finish "''my-project''" io_empty]
  obtain available w' where
    run: "fetch_models scenario_service finish ''my-project'' ''europe-west4'' ''google'' io_empty = (Inr available, w')"
    and ms: "mset available =
             filter_mset (\<lambda>m. fetched (get_publisher_model scenario_service (''europe-west4'' @ ''-aiplatform.googleapis.com'') (name m)))
               (mset [scenario_model ''a'', scenario_model ''b'', scenario_model ''c''])"
    by blast
  have "mset available = {#scenario_model ''a''#}"
    unfolding ms by (simp add: scenario_service_def scenario_model_def)
  then have "set available = {scenario_model ''a''}"
    by (metis set_mset_mset set_mset_single)
  with run show "\<exists>available w'.
      fetch_models scenario_service finish ''my-project'' ''europe-west4'' ''google'' io_empty = (Inr available, w')
    \<and> set available = {scenario_model ''a''}" by blast
qed

text \<open>
  C2 (subset property). Whenever discovery returns a list, for every region and
  publisher, \<^verbatim>\<open>fetch_models\<close> returns a list that is a sub-multiset of the discovered
  list: no identifier absent from discovery, and no item more often than discovery has it.
\<close>

theorem result_is_sub_multiset_of_discovery:
  "list_publisher_models svc ''us-central1-aiplatform.googleapis.com'' (''publishers/'' @ publisher) = Inr all_models
   \<Longrightarrow> \<exists>available w'.
         fetch_models svc finish project_id region publisher w = (Inr available, w')
       \<and> mset available \<subseteq># mset all_models
       \<and> set available \<subseteq> set all_models"
proof -
  assume disc: "list_publisher_models svc ''us-central1-aiplatform.googleapis.com'' (''publishers/'' @ publisher) = Inr all_models"
  show ?thesis
  proof (cases "region = ''us-central1''")
    case True
    with fetch_models_fast_path [OF disc, of finish project_id w] show ?thesis
      by auto
  next
    case False
    from fetch_models_probing [OF disc False, of finish project_id w]
    obtain available w' where
      run: "fetch_models svc finish project_id region publisher w = (Inr available, w')"
      and ms: "mset available =
         filter_mset (\<lambda>m. fetched (get_publisher_model svc (region @ ''-aiplatform.googleapis.com'') (name m)))
               (mset all_models)"
      by blast
    have sub: "mset available \<subseteq># mset all_models"
      unfolding ms by (rule multiset_filter_subset)
    then have "set available \<subseteq> set all_models"
      by (rule set_mset_mono [of "mset available" "mset all_models", unfolded set_mset_mset])
    with run sub show ?thesis by blast
  qed
qed

theorem result_is_sub_multiset_of_discovery_witness:
  "\<exists>available w'.
      fetch_models scenario_service (\<lambda>i. 2 - i) ''my-project'' ''europe-west4'' ''google'' io_empty = (Inr available, w')
    \<and> mset available \<subseteq># mset [scenario_model ''a'', scenario_model ''b'', scenario_model ''c'']
    \<and> set available \<subseteq> set [scenario_model ''a'', scenario_model ''b'', scenario_model ''c'']"
proof -
  have disc: "list_publisher_models scenario_service ''us-central1-aiplatform.googleapis.com'' (''publishers/'' @ ''google'')
              = Inr [scenario_model ''a'', scenario_model ''b'', scenario_model ''c'']"
    by (simp add: scenario_service_def)
  from result_is_sub_multiset_of_discovery [OF disc, of "\<lambda>i. 2 - i" "''my-project''" "''europe-west4''" io_empty]
  show ?thesis .
qed

text \<open>
  C3 (fast-path identity). When the target region is the master region
  \<^verbatim>\<open>us-central1\<close>, \<^verbatim>\<open>fetch_models\<close> returns the discovered list unchanged and issues no
  \<^verbatim>\<open>get_publisher_model\<close> call.
\<close>

theorem fast_path_identity:
  "list_publisher_models svc ''us-central1-aiplatform.googleapis.com'' (''publishers/'' @ publisher) = Inr all_models
   \<Longrightarrow> fst (fetch_models svc finish project_id ''us-central1'' publisher w) = Inr all_models
     \<and> get_calls (snd (fetch_models svc finish project_id ''us-central1'' publisher w)) = get_calls w"
proof -
  assume disc: "list_publisher_models svc ''us-central1-aiplatform.googleapis.com'' (''publishers/'' @ publisher) = Inr all_models"
  from fetch_models_fast_path [OF disc, of finish project_id w] show ?thesis
    by auto
qed

theorem fast_path_identity_witness:
  "fst (fetch_models scenario_service (\<lambda>i. i) ''my-project'' ''us-central1'' ''google'' io_empty)
     = Inr [scenario_model ''a'', scenario_model ''b'', scenario_model ''c'']
   \<and> get_calls (snd (fetch_models scenario_service (\<lambda>i. i) ''my-project'' ''us-central1'' ''google'' io_empty)) = []"
proof -
  have disc: "list_publisher_models scenario_service ''us-central1-aiplatform.googleapis.com'' (''publishers/'' @ ''google'')
              = Inr [scenario_model ''a'', scenario_model ''b'', scenario_model ''c'']"
    by (simp add: scenario_service_def)
  from fast_path_identity [OF disc, of "\<lambda>i. i" "''my-project''" io_empty]
  show ?thesis by (simp add: io_empty_def)
qed

text \<open>
  C4 (discovery failure is fatal). If the listing call against the master catalog
  raises, \<^verbatim>\<open>fetch_models\<close> logs the discovery error and ends the process with status 1:
  no list is returned in its place, no probe is issued and nothing is printed; the same
  holds for the whole run of \<^verbatim>\<open>main\<close>.
\<close>

theorem discovery_failure_is_fatal:
  "list_publisher_models svc ''us-central1-aiplatform.googleapis.com'' (''publishers/'' @ publisher) = Inl e
   \<Longrightarrow> (\<exists>w'. fetch_models svc finish project_id region publisher w = (Inl (SystemExit 1), w')
            \<and> last (stderr w') = ''ERROR: Failed to discover models: '' @ str_exception e
            \<and> get_calls w' = get_calls w
            \<and> stdout w' = stdout w)
     \<and> (\<forall>a environ. args_publisher a = publisher
            \<longrightarrow> (\<exists>w'. main svc finish environ a w = (Inl (SystemExit 1), w')
                     \<and> get_calls w' = get_calls w
                     \<and> stdout w' = stdout w))"
proof -
  assume disc: "list_publisher_models svc ''us-central1-aiplatform.googleapis.com'' (''publishers/'' @ publisher) = Inl e"
  have fm: "\<exists>w'. fetch_models svc finish project_id region publisher w = (Inl (SystemExit 1), w')
            \<and> last (stderr w') = ''ERROR: Failed to discover models: '' @ str_exception e
            \<and> get_calls w' = get_calls w
            \<and> stdout w' = stdout w"
    using fetch_models_discovery_failed [OF disc, of finish project_id region w] by blast
  have mn: "\<exists>w'. main svc finish environ a w = (Inl (SystemExit 1), w')
                     \<and> get_calls w' = get_calls w \<and> stdout w' = stdout w"
    if pub: "args_publisher a = publisher" for a environ
  proof (cases "get_project_id environ (args_project a) w")
    case (Pair r w1)
    have keep: "get_calls w1 = get_calls w \<and> stdout w1 = stdout w"
      using get_project_id_calls [of environ "args_project a" w] Pair by simp
    show ?thesis
    proof (cases r)
      case (Inl ex)
      have "ex = SystemExit 1"
        using Pair Inl by (auto simp: get_project_id_def split: option.splits)
      with main_project_unresolved [of environ a w ex w1 svc finish] Pair Inl keep
      show ?thesis by simp
    next
      case (Inr pid)
      from fetch_models_discovery_failed [OF disc, of finish pid "resolve_region environ a" w1]
      obtain w2 where
        run: "fetch_models svc finish pid (resolve_region environ a) publisher w1 = (Inl (SystemExit 1), w2)"
        and io: "stdout w2 = stdout w1 \<and> get_calls w2 = get_calls w1"
        by blast
      from main_fetch_failed [of environ a w pid w1 svc finish "SystemExit 1" w2] Pair Inr run pub
      have "main svc finish environ a w = (Inl (SystemExit 1), w2)" by simp
      with io keep show ?thesis by simp
    qed
  qed
  from fm mn show ?thesis by blast
qed

theorem discovery_failure_is_fatal_witness:
  "\<exists>w'. main failing_service (\<lambda>i. i) Map.empty scenario_args io_empty = (Inl (SystemExit 1), w')
       \<and> get_calls w' = [] \<and> stdout w' = []"
proof -
  have disc: "list_publisher_models failing_service ''us-central1-aiplatform.googleapis.com'' (''publishers/'' @ ''google'')
              = Inl (PermissionDenied ''403 Permission denied'')"
    by (simp add: failing_service_def)
  have pub: "args_publisher scenario_args = ''google''"
    by (simp add: scenario_args_def)
  from discovery_failure_is_fatal [OF disc, of "\<lambda>i. i" "''my-project''" "''europe-west4''" io_empty] pub
  have "\<exists>w'. main failing_service (\<lambda>i. i) Map.empty scenario_args io_empty = (Inl (SystemExit 1), w')
       \<and> get_calls w' = get_calls io_empty \<and> stdout w' = stdout io_empty"
    by blast
  then show ?thesis by (simp add: io_empty_def)
qed

text \<open>
  C5 (completeness barrier). In the interleaving model of the filtering phase, whatever
  the schedule: once \<^verbatim>\<open>fetch_models\<close> has returned, every discovered model has been
  submitted, every submitted task is finished (none pending, none running), the loop
  has consumed one outcome per task, the futures yielded are all the futures, each
  once, and the list returned is built from all of the outcomes; it is the list the
  function \<^verbatim>\<open>fetch_models\<close> above returns for the completion times of that run.
\<close>

theorem completeness_barrier:
  "list_publisher_models svc ''us-central1-aiplatform.googleapis.com'' (''publishers/'' @ publisher) = Inr all_models
   \<Longrightarrow> region \<noteq> ''us-central1''
   \<Longrightarrow> filtering_run svc region all_models events w4 = Some s
   \<Longrightarrow> pool_returned s
   \<Longrightarrow> length (pool_tasks s) = length all_models
     \<and> (\<forall>i < length all_models. \<exists>r. pool_tasks s ! i = Finished r)
     \<and> running_count (pool_tasks s) = 0
     \<and> pool_counted s = length all_models
     \<and> mset (pool_yielded s) = mset [0..<length all_models]
     \<and> mset (pool_available s) =
         filter_mset (\<lambda>m. fetched (get_publisher_model svc (region @ ''-aiplatform.googleapis.com'') (name m)))
           (mset all_models)
     \<and> (\<exists>w'. fetch_models svc (index_of (pool_yielded s)) project_id region publisher w
               = (Inr (pool_available s), w'))"
proof -
  assume disc: "list_publisher_models svc ''us-central1-aiplatform.googleapis.com'' (''publishers/'' @ publisher) = Inr all_models"
    and reg: "region \<noteq> ''us-central1''"
    and frun: "filtering_run svc region all_models events w4 = Some s"
    and ret: "pool_returned s"
  define region_client where "region_client = \<lparr>api_endpoint = region @ ''-aiplatform.googleapis.com''\<rparr>"
  have run: "pool_run max_workers svc region_client all_models events (pool_init w4) = Some s"
    using frun by (simp only: filtering_run_def region_client_def)
  have inv: "pool_inv max_workers svc region_client all_models s"
    using pool_inv_run [OF pool_inv_init run] .
  from pool_inv_returned [OF inv ret] have
        lt: "length (pool_tasks s) = length all_models"
    and fin: "\<forall>i < length all_models. pool_tasks s ! i = Finished (probe_of svc region_client all_models i)"
    and cnt: "pool_counted s = length all_models"
    and ys: "mset (pool_yielded s) = mset [0..<length all_models]"
    and av: "mset (pool_available s) =
         filter_mset (\<lambda>m. fetched (get_publisher_model svc (api_endpoint region_client) (name m)))
           (mset all_models)"
    by blast+
  from fin have fins: "\<forall>i < length all_models. \<exists>r. pool_tasks s ! i = Finished r"
    by blast
  then have idle: "running_count (pool_tasks s) = 0"
    using running_count_all_finished [of "pool_tasks s"] lt by simp
  have av': "mset (pool_available s) =
         filter_mset (\<lambda>m. fetched (get_publisher_model svc (region @ ''-aiplatform.googleapis.com'') (name m)))
           (mset all_models)"
    using av by (simp add: region_client_def)
  have same: "\<exists>w'. fetch_models svc (index_of (pool_yielded s)) project_id region publisher w
               = (Inr (pool_available s), w')"
    using pool_run_refines_fetch_models [OF disc reg run [unfolded region_client_def] ret] .
  from lt fins idle cnt ys av' same show ?thesis by blast
qed

text \<open>
  The scenario under a schedule with the three probes in flight together and yielded in
  the order \<open>c, b, a\<close>.
\<close>

theorem completeness_barrier_witness:
  "\<exists>s. filtering_run scenario_service ''europe-west4'' scenario_models scenario_events io_empty = Some s
      \<and> pool_returned s
      \<and> length (pool_tasks s) = 3
      \<and> running_count (pool_tasks s) = 0
      \<and> pool_counted s = 3
      \<and> mset (pool_available s) = {#scenario_model ''a''#}
      \<and> (\<exists>w'. fetch_models scenario_service (index_of (pool_yielded s)) ''my-project'' ''europe-west4''
                  ''google'' io_empty = (Inr (pool_available s), w'))"
proof -
  define s where "s =
     \<lparr>pool_tasks = [Finished True, Finished False, Finished False],
      pool_yielded = [2, 1, 0], pool_counted = 3,
      pool_available = [scenario_model ''a''], pool_returned = True,
      pool_io = \<lparr>stderr = [], stdout = [], list_calls = [],
        get_calls = [(''europe-west4-aiplatform.googleapis.com'', ''publishers/google/models/c''),
                     (''europe-west4-aiplatform.googleapis.com'', ''publishers/google/models/a''),
                     (''europe-west4-aiplatform.googleapis.com'', ''publishers/google/models/b'')]\<rparr>\<rparr>"
  have ev: "filtering_run scenario_service ''europe-west4'' scenario_models scenario_events io_empty = Some s"
    by (simp add: s_def filtering_run_def scenario_events_def scenario_models_def scenario_service_def
        scenario_model_def pool_init_def io_empty_def running_count_def max_workers_def
        check_model_availability_def loop_body_def Let_def)
  have ret: "pool_returned s" by (simp add: s_def)
  have disc: "list_publisher_models scenario_service ''us-central1-aiplatform.googleapis.com''
                (''publishers/'' @ ''google'') = Inr scenario_models"
    by (simp add: scenario_service_def scenario_models_def)
  have reg: "''europe-west4'' \<noteq> ''us-central1''" by simp
  note barrier = completeness_barrier [OF disc reg ev ret, of "''my-project''" io_empty]
  from barrier
  have "length (pool_tasks s) = length scenario_models
      \<and> running_count (pool_tasks s) = 0
      \<and> pool_counted s = length scenario_models
      \<and> mset (pool_available s) =
         filter_mset (\<lambda>m. fetched (get_publisher_model scenario_service
              (''europe-west4'' @ ''-aiplatform.googleapis.com'') (name m)))
           (mset scenario_models)"
    by blast
  then have counts: "length (pool_tasks s) = 3 \<and> running_count (pool_tasks s) = 0 \<and> pool_counted s = 3
      \<and> mset (pool_available s) = {#scenario_model ''a''#}"
    by (simp add: scenario_models_def scenario_service_def scenario_model_def)
  from barrier
  have same: "\<exists>w'. fetch_models scenario_service (index_of (pool_yielded s)) ''my-project'' ''europe-west4''
                  ''google'' io_empty = (Inr (pool_available s), w')"
    by blast
  from ev ret counts same show ?thesis by blast
qed

text \<open>
  C6 (determinism under a deterministic probe oracle). For a fixed service, two calls
  of \<^verbatim>\<open>fetch_models\<close> with the same arguments end the same way and, when they return,
  return the same set of models, whatever the completion times of the probe tasks in
  either call.
\<close>

theorem determinism_under_completion_order:
  "map_sum id set (fst (fetch_models svc finish1 project_id region publisher w)) =
   map_sum id set (fst (fetch_models svc finish2 project_id region publisher w))"
proof (cases "list_publisher_models svc ''us-central1-aiplatform.googleapis.com'' (''publishers/'' @ publisher)")
  case (Inl e)
  from fetch_models_discovery_failed [OF Inl, of finish1 project_id region w]
       fetch_models_discovery_failed [OF Inl, of finish2 project_id region w]
  show ?thesis by auto
next
  case (Inr all_models)
  show ?thesis
  proof (cases "region = ''us-central1''")
    case True
    from fetch_models_fast_path [OF Inr, of finish1 project_id w]
         fetch_models_fast_path [OF Inr, of finish2 project_id w] True
    show ?thesis by auto
  next
    case False
    from fetch_models_probing [OF Inr False, of finish1 project_id w]
    obtain av1 w1 where
      r1: "fetch_models svc finish1 project_id region publisher w = (Inr av1, w1)"
      and m1: "mset av1 =
         filter_mset (\<lambda>m. fetched (get_publisher_model svc (region @ ''-aiplatform.googleapis.com'') (name m)))
               (mset all_models)"
      by blast
    from fetch_models_probing [OF Inr False, of finish2 project_id w]
    obtain av2 w2 where
      r2: "fetch_models svc finish2 project_id region publisher w = (Inr av2, w2)"
      and m2: "mset av2 =
         filter_mset (\<lambda>m. fetched (get_publisher_model svc (region @ ''-aiplatform.googleapis.com'') (name m)))
               (mset all_models)"
      by blast
    from m1 m2 have "mset av1 = mset av2" by simp
    then have "set av1 = set av2" by (rule mset_eq_setD)
    with r1 r2 show ?thesis by simp
  qed
qed

text \<open>
  C7 (per-probe failure containment). \<^verbatim>\<open>fetch_models\<close> ends the process only when the
  listing call raised, never because of a probe; and a probe whose fetch raises makes
  \<^verbatim>\<open>check_model_availability\<close> return false.
\<close>

theorem probe_failures_contained:
  "isl (fst (fetch_models svc finish project_id region publisher w)) =
     isl (list_publisher_models svc ''us-central1-aiplatform.googleapis.com'' (''publishers/'' @ publisher))
   \<and> (\<forall>e. get_publisher_model svc (api_endpoint c) model_name = Inl e
          \<longrightarrow> (\<exists>w'. check_model_availability svc c model_name w0 = (False, w')))"
proof -
  have a: "isl (fst (fetch_models svc finish project_id region publisher w)) =
     isl (list_publisher_models svc ''us-central1-aiplatform.googleapis.com'' (''publishers/'' @ publisher))"
  proof (cases "list_publisher_models svc ''us-central1-aiplatform.googleapis.com'' (''publishers/'' @ publisher)")
    case (Inl e)
    from fetch_models_discovery_failed [OF Inl, of finish project_id region w] Inl
    show ?thesis by auto
  next
    case (Inr all_models)
    show ?thesis
    proof (cases "region = ''us-central1''")
      case True
      from fetch_models_fast_path [OF Inr, of finish project_id w] True Inr
      show ?thesis by auto
    next
      case False
      from fetch_models_probing [OF Inr False, of finish project_id w] Inr
      show ?thesis by auto
    qed
  qed
  have b: "\<forall>e. get_publisher_model svc (api_endpoint c) model_name = Inl e
          \<longrightarrow> (\<exists>w'. check_model_availability svc c model_name w0 = (False, w'))"
    by (simp add: check_model_availability_eq)
  from a b show ?thesis by blast
qed

theorem probe_failures_contained_witness:
  "\<not> isl (fst (fetch_models scenario_service (\<lambda>i. i) ''my-project'' ''europe-west4'' ''google'' io_empty))
   \<and> (\<exists>w'. check_model_availability scenario_service
              \<lparr>api_endpoint = ''europe-west4-aiplatform.googleapis.com''\<rparr> ''publishers/google/models/c'' io_empty
            = (False, w'))"
proof -
  have raised: "get_publisher_model scenario_service
                  (api_endpoint \<lparr>api_endpoint = ''europe-west4-aiplatform.googleapis.com''\<rparr>)
                  ''publishers/google/models/c'' = Inl (DeadlineExceeded ''504 Deadline Exceeded'')"
    by (simp add: scenario_service_def)
  have disc: "\<not> isl (list_publisher_models scenario_service ''us-central1-aiplatform.googleapis.com'' (''publishers/'' @ ''google''))"
    by (simp add: scenario_service_def)
  from probe_failures_contained [of scenario_service "\<lambda>i. i" "''my-project''" "''europe-west4''" "''google''" io_empty
         "\<lparr>api_endpoint = ''europe-west4-aiplatform.googleapis.com''\<rparr>" "''publishers/google/models/c''" io_empty]
       raised disc
  show ?thesis by blast
qed

text \<open>
  C8 (concurrency bound). In the interleaving model, in every state of every run the
  number of tasks running, that is of probes with an outstanding call, is at most the
  pool size, 50 for \<^verbatim>\<open>fetch_models\<close>; two runs that return, under any pool sizes and
  schedules, return the same set of models; and for every pool size of at least one a
  run that returns exists. Every prefix of a run is a run, so the bound holds at every
  point of a run. Wall-clock time is outside the model.
\<close>

theorem concurrency_bound:
  "(pool_run workers svc region_client all_models events (pool_init w) = Some s
      \<longrightarrow> running_count (pool_tasks s) \<le> workers)
   \<and> (filtering_run svc region all_models events w = Some s
      \<longrightarrow> running_count (pool_tasks s) \<le> 50)
   \<and> (pool_run workers1 svc region_client all_models events1 (pool_init w) = Some s1 \<and> pool_returned s1
      \<and> pool_run workers2 svc region_client all_models events2 (pool_init w) = Some s2 \<and> pool_returned s2
      \<longrightarrow> set (pool_available s1) = set (pool_available s2))
   \<and> (1 \<le> workers
      \<longrightarrow> (\<exists>s'. pool_run workers svc region_client all_models
                  (sequential_schedule (length all_models)) (pool_init w) = Some s'
               \<and> pool_returned s'))"
proof -
  have bound: "running_count (pool_tasks t) \<le> k"
    if "pool_run k svc c all_models es (pool_init w) = Some t" for k c es t
    using pool_inv_run [OF pool_inv_init that] unfolding pool_inv_def by blast
  have b1: "pool_run workers svc region_client all_models events (pool_init w) = Some s
      \<longrightarrow> running_count (pool_tasks s) \<le> workers"
    using bound by blast
  have b2: "filtering_run svc region all_models events w = Some s
      \<longrightarrow> running_count (pool_tasks s) \<le> 50"
    using bound [of max_workers "\<lparr>api_endpoint = region @ ''-aiplatform.googleapis.com''\<rparr>" events s]
    by (simp add: filtering_run_def max_workers_def)
  have same: "set (pool_available s1) = set (pool_available s2)"
    if r1: "pool_run workers1 svc region_client all_models events1 (pool_init w) = Some s1"
    and t1: "pool_returned s1"
    and r2: "pool_run workers2 svc region_client all_models events2 (pool_init w) = Some s2"
    and t2: "pool_returned s2"
  proof -
    from pool_inv_returned [OF pool_inv_run [OF pool_inv_init r1] t1]
         pool_inv_returned [OF pool_inv_run [OF pool_inv_init r2] t2]
    have "mset (pool_available s1) = mset (pool_available s2)" by simp
    then show ?thesis by (rule mset_eq_setD)
  qed
  have prog: "1 \<le> workers
      \<longrightarrow> (\<exists>s'. pool_run workers svc region_client all_models
                  (sequential_schedule (length all_models)) (pool_init w) = Some s'
               \<and> pool_returned s')"
    using pool_can_return [of workers svc region_client all_models w] by blast
  from b1 b2 same prog show ?thesis by blast
qed

text \<open>
  The scenario: three probes in flight under the pool of 50; a pool of one worker and
  the pool of 50 yield the futures in different orders and return the same set.
\<close>

theorem concurrency_bound_witness:
  "(\<exists>s. filtering_run scenario_service ''europe-west4'' scenario_models (take 6 scenario_events) io_empty = Some s
       \<and> pool_tasks s = [Running, Running, Running]
       \<and> running_count (pool_tasks s) \<le> 50)
   \<and> (\<exists>s1 s2.
         pool_run 1 scenario_service scenario_client scenario_models (sequential_schedule 3) (pool_init io_empty) = Some s1
       \<and> pool_returned s1
       \<and> pool_run max_workers scenario_service scenario_client scenario_models scenario_events (pool_init io_empty) = Some s2
       \<and> pool_returned s2
       \<and> pool_yielded s1 \<noteq> pool_yielded s2
       \<and> set (pool_available s1) = set (pool_available s2))"
proof -
  define t where "t =
     \<lparr>pool_tasks = [Running, Running, Running], pool_yielded = [], pool_counted = 0,
      pool_available = [], pool_returned = False, pool_io = io_empty\<rparr>"
  have evt: "filtering_run scenario_service ''europe-west4'' scenario_models (take 6 scenario_events) io_empty = Some t"
    by (simp add: t_def filtering_run_def scenario_events_def scenario_models_def
        pool_init_def running_count_def max_workers_def)
  define s1 where "s1 =
     \<lparr>pool_tasks = [Finished True, Finished False, Finished False],
      pool_yielded = [0, 1, 2], pool_counted = 3,
      pool_available = [scenario_model ''a''], pool_returned = True,
      pool_io = \<lparr>stderr = [], stdout = [], list_calls = [],
        get_calls = [(''europe-west4-aiplatform.googleapis.com'', ''publishers/google/models/a''),
                     (''europe-west4-aiplatform.googleapis.com'', ''publishers/google/models/b''),
                     (''europe-west4-aiplatform.googleapis.com'', ''publishers/google/models/c'')]\<rparr>\<rparr>"
  define s2 where "s2 =
     \<lparr>pool_tasks = [Finished True, Finished False, Finished False],
      pool_yielded = [2, 1, 0], pool_counted = 3,
      pool_available = [scenario_model ''a''], pool_returned = True,
      pool_io = \<lparr>stderr = [], stdout = [], list_calls = [],
        get_calls = [(''europe-west4-aiplatform.googleapis.com'', ''publishers/google/models/c''),
                     (''europe-west4-aiplatform.googleapis.com'', ''publishers/google/models/a''),
                     (''europe-west4-aiplatform.googleapis.com'', ''publishers/google/models/b'')]\<rparr>\<rparr>"
  have three: "sequential_schedule 3 =
      [Submit, Start, Finish 0, Submit, Start, Finish 1, Submit, Start, Finish 2,
       Yield 0, Yield 1, Yield 2, Return]"
    by (simp add: sequential_schedule_def upt_conv_Cons)
  have ev1: "pool_run 1 scenario_service scenario_client scenario_models (sequential_schedule 3) (pool_init io_empty) = Some s1"
    unfolding three
    by (simp add: s1_def scenario_client_def scenario_models_def scenario_service_def
        scenario_model_def pool_init_def io_empty_def running_count_def
        check_model_availability_def loop_body_def Let_def)
  have ev2: "pool_run max_workers scenario_service scenario_client scenario_models scenario_events (pool_init io_empty) = Some s2"
    by (simp add: s2_def scenario_client_def scenario_events_def scenario_models_def scenario_service_def
        scenario_model_def pool_init_def io_empty_def running_count_def max_workers_def
        check_model_availability_def loop_body_def Let_def)
  have ret: "pool_returned s1" "pool_returned s2" by (simp_all add: s1_def s2_def)
  have len: "(1::nat) \<le> 1" by simp
  from concurrency_bound [of max_workers scenario_service scenario_client scenario_models
         "take 6 scenario_events" io_empty t "''europe-west4''" 1 "sequential_schedule 3" s1
         max_workers scenario_events s2] evt ev1 ev2 ret
  have "running_count (pool_tasks t) \<le> 50 \<and> set (pool_available s1) = set (pool_available s2)"
    by blast
  moreover have "pool_tasks t = [Running, Running, Running]" by (simp add: t_def)
  moreover have "pool_yielded s1 \<noteq> pool_yielded s2" by (simp add: s1_def s2_def)
  ultimately show ?thesis using evt ev1 ev2 ret by blast
qed

text \<open>
  C9 (implicit default region). When neither \<^verbatim>\<open>--region\<close> nor \<^verbatim>\<open>REGION\<close> gives a
  non-empty value, the region is \<^verbatim>\<open>us-central1\<close>; then, once the project is resolved and
  discovery has returned, the run issues no probe and prints the header followed by one
  policy line per discovered model, in discovery order (nothing at all for an empty
  catalog).
\<close>

theorem default_region_takes_fast_path:
  "\<not> truthy (args_region a) \<Longrightarrow> \<not> truthy (os_getenv environ ''REGION'')
   \<Longrightarrow> resolve_region environ a = ''us-central1''
     \<and> (\<forall>project_id w1 all_models.
           get_project_id environ (args_project a) w = (Inr project_id, w1)
         \<and> list_publisher_models svc ''us-central1-aiplatform.googleapis.com''
              (''publishers/'' @ args_publisher a) = Inr all_models
         \<longrightarrow> (\<exists>w'. main svc finish environ a w = (Inr (), w')
                \<and> get_calls w' = get_calls w
                \<and> stdout w' = stdout w @
                     (if all_models = [] then []
                      else (''# Models available in us-central1 for publisher ''
                              @ [CHR 0x27] @ args_publisher a @ [CHR 0x27]) # map policy_line all_models)))"
proof -
  assume ar: "\<not> truthy (args_region a)" and er: "\<not> truthy (os_getenv environ ''REGION'')"
  have reg: "resolve_region environ a = ''us-central1''"
    using ar er by (simp add: resolve_region_def if_truthy_def)
  have run: "\<exists>w'. main svc finish environ a w = (Inr (), w')
                \<and> get_calls w' = get_calls w
                \<and> stdout w' = stdout w @
                     (if all_models = [] then []
                      else (''# Models available in us-central1 for publisher ''
                              @ [CHR 0x27] @ args_publisher a @ [CHR 0x27]) # map policy_line all_models)"
    if pid: "get_project_id environ (args_project a) w = (Inr project_id, w1)"
    and disc: "list_publisher_models svc ''us-central1-aiplatform.googleapis.com''
              (''publishers/'' @ args_publisher a) = Inr all_models"
    for project_id w1 all_models
  proof -
    have keep: "get_calls w1 = get_calls w \<and> stdout w1 = stdout w"
      using get_project_id_calls [of environ "args_project a" w] pid by simp
    from fetch_models_fast_path [OF disc, of finish project_id w1]
    obtain w2 where
      fm: "fetch_models svc finish project_id ''us-central1'' (args_publisher a) w1 = (Inr all_models, w2)"
      and io: "stdout w2 = stdout w1 \<and> get_calls w2 = get_calls w1"
      by blast
    from main_fetch_ok [of environ a w project_id w1 svc finish all_models w2] pid fm reg
    obtain w' where
      "main svc finish environ a w = (Inr (), w')"
      "stdout w' = stdout w2 @
              (if all_models = [] then []
               else (''# Models available in '' @ ''us-central1'' @ '' for publisher ''
                       @ [CHR 0x27] @ args_publisher a @ [CHR 0x27]) # map policy_line all_models)"
      "get_calls w' = get_calls w2"
      by auto
    with io keep show ?thesis by simp
  qed
  from reg run show ?thesis by blast
qed

theorem default_region_takes_fast_path_witness:
  "resolve_region Map.empty scenario_args = ''us-central1''
   \<and> (\<exists>w'. main scenario_service (\<lambda>i. i) Map.empty scenario_args io_empty = (Inr (), w')
          \<and> get_calls w' = []
          \<and> stdout w' = [''# Models available in us-central1 for publisher '' @ [CHR 0x27] @ ''google'' @ [CHR 0x27],
                          ''- publishers/google/models/a:predict'',
                          ''- publishers/google/models/b:predict'',
                          ''- publishers/google/models/c:predict''])"
proof -
  have ar: "\<not> truthy (args_region scenario_args)"
    by (simp add: scenario_args_def)
  have er: "\<not> truthy (os_getenv Map.empty ''REGION'')"
    by (simp add: os_getenv_def)
  have pid: "get_project_id Map.empty (args_project scenario_args) io_empty = (Inr ''my-project'', io_empty)"
    by (simp add: get_project_id_def if_truthy_def scenario_args_def)
  have disc: "list_publisher_models scenario_service ''us-central1-aiplatform.googleapis.com''
                (''publishers/'' @ args_publisher scenario_args)
              = Inr [scenario_model ''a'', scenario_model ''b'', scenario_model ''c'']"
    by (simp add: scenario_service_def scenario_args_def)
  from default_region_takes_fast_path [OF ar er, of io_empty scenario_service "\<lambda>i. i"] pid disc
  have "resolve_region Map.empty scenario_args = ''us-central1''
     \<and> (\<exists>w'. main scenario_service (\<lambda>i. i) Map.empty scenario_args io_empty = (Inr (), w')
                \<and> get_calls w' = get_calls io_empty
                \<and> stdout w' = stdout io_empty @
                     (if [scenario_model ''a'', scenario_model ''b'', scenario_model ''c''] = [] then []
                      else (''# Models available in us-central1 for publisher ''
                              @ [CHR 0x27] @ args_publisher scenario_args @ [CHR 0x27])
                           # map policy_line [scenario_model ''a'', scenario_model ''b'', scenario_model ''c'']))"
    by blast
  then show ?thesis
    by (simp add: io_empty_def scenario_args_def policy_line_def scenario_model_def)
qed

text \<open>
  C10 (configuration precedence). A non-empty \<^verbatim>\<open>--project\<close> argument is returned
  unchanged whatever the environment holds; without it, a non-empty
  \<^verbatim>\<open>GOOGLE_CLOUD_PROJECT\<close> is returned; with neither, \<^verbatim>\<open>get_project_id\<close> ends the process
  with status 1, and so does \<^verbatim>\<open>main\<close>, before any call to the service.
\<close>

theorem project_id_precedence:
  "(p \<noteq> [] \<longrightarrow> get_project_id environ (Some p) w = (Inr p, w))
   \<and> (\<not> truthy arg_project \<and> os_getenv environ ''GOOGLE_CLOUD_PROJECT'' = Some v \<and> v \<noteq> []
        \<longrightarrow> get_project_id environ arg_project w = (Inr v, w))
   \<and> (\<not> truthy (args_project a) \<and> \<not> truthy (os_getenv environ ''GOOGLE_CLOUD_PROJECT'')
        \<longrightarrow> (\<exists>w'. get_project_id environ (args_project a) w = (Inl (SystemExit 1), w')
                  \<and> main svc finish environ a w = (Inl (SystemExit 1), w')
                  \<and> list_calls w' = list_calls w \<and> get_calls w' = get_calls w))"
proof -
  have a1: "p \<noteq> [] \<longrightarrow> get_project_id environ (Some p) w = (Inr p, w)"
    by (simp add: get_project_id_def if_truthy_def)
  have a2: "\<not> truthy arg_project \<and> os_getenv environ ''GOOGLE_CLOUD_PROJECT'' = Some v \<and> v \<noteq> []
        \<longrightarrow> get_project_id environ arg_project w = (Inr v, w)"
    by (simp add: get_project_id_def if_truthy_def)
  have a3: "\<exists>w'. get_project_id environ (args_project a) w = (Inl (SystemExit 1), w')
                  \<and> main svc finish environ a w = (Inl (SystemExit 1), w')
                  \<and> list_calls w' = list_calls w \<and> get_calls w' = get_calls w"
    if "\<not> truthy (args_project a) \<and> \<not> truthy (os_getenv environ ''GOOGLE_CLOUD_PROJECT'')"
    using that by (simp add: main_def get_project_id_def if_truthy_def logger_error_def)
  from a1 a2 a3 show ?thesis by blast
qed

theorem project_id_precedence_witness:
  "get_project_id [''GOOGLE_CLOUD_PROJECT'' \<mapsto> ''env-project''] (Some ''cli-project'') io_empty
     = (Inr ''cli-project'', io_empty)
   \<and> get_project_id [''GOOGLE_CLOUD_PROJECT'' \<mapsto> ''env-project''] None io_empty
     = (Inr ''env-project'', io_empty)
   \<and> (\<exists>w'. get_project_id Map.empty (args_project (scenario_args\<lparr>args_project := None\<rparr>)) io_empty
              = (Inl (SystemExit 1), w')
          \<and> main scenario_service (\<lambda>i. i) Map.empty (scenario_args\<lparr>args_project := None\<rparr>) io_empty
              = (Inl (SystemExit 1), w')
          \<and> list_calls w' = [] \<and> get_calls w' = [])"
proof -
  have h1: "''cli-project'' \<noteq> []" by simp
  have h2: "\<not> truthy None \<and> os_getenv [''GOOGLE_CLOUD_PROJECT'' \<mapsto> ''env-project''] ''GOOGLE_CLOUD_PROJECT''
              = Some ''env-project'' \<and> ''env-project'' \<noteq> []"
    by (simp add: os_getenv_def)
  have h3: "\<not> truthy (args_project (scenario_args\<lparr>args_project := None\<rparr>))
            \<and> \<not> truthy (os_getenv Map.empty ''GOOGLE_CLOUD_PROJECT'')"
    by (simp add: os_getenv_def)
  from project_id_precedence [of "''cli-project''" "[''GOOGLE_CLOUD_PROJECT'' \<mapsto> ''env-project'']" io_empty
         None "''env-project''"] h1 h2
  have a: "get_project_id [''GOOGLE_CLOUD_PROJECT'' \<mapsto> ''env-project''] (Some ''cli-project'') io_empty
             = (Inr ''cli-project'', io_empty)
         \<and> get_project_id [''GOOGLE_CLOUD_PROJECT'' \<mapsto> ''env-project''] None io_empty
             = (Inr ''env-project'', io_empty)"
    by blast
  from project_id_precedence [of "''x''" Map.empty io_empty None "''y''"
         "scenario_args\<lparr>args_project := None\<rparr>" scenario_service "\<lambda>i. i"] h3
  have "\<exists>w'. get_project_id Map.empty (args_project (scenario_args\<lparr>args_project := None\<rparr>)) io_empty
              = (Inl (SystemExit 1), w')
          \<and> main scenario_service (\<lambda>i. i) Map.empty (scenario_args\<lparr>args_project := None\<rparr>) io_empty
              = (Inl (SystemExit 1), w')
          \<and> list_calls w' = list_calls io_empty \<and> get_calls w' = get_calls io_empty"
    by blast
  then have b: "\<exists>w'. get_project_id Map.empty (args_project (scenario_args\<lparr>args_project := None\<rparr>)) io_empty
              = (Inl (SystemExit 1), w')
          \<and> main scenario_service (\<lambda>i. i) Map.empty (scenario_args\<lparr>args_project := None\<rparr>) io_empty
              = (Inl (SystemExit 1), w')
          \<and> list_calls w' = [] \<and> get_calls w' = []"
    by (simp add: io_empty_def)
  from a b show ?thesis by blast
qed

end
